theory Spec2Isabelle
  imports Main "HOL-Library.Sublist"
begin

section \<open>Python values and exceptions used by the Elasticsearch wrapper\<close>

text \<open>
  The wrapper in \<^verbatim>\<open>app/elasticsearch_client.py\<close> handles documents, request bodies and
  responses as Python dictionaries (\<^verbatim>\<open>Dict[str, Any]\<close>). They are modelled as JSON
  values; a dictionary is an association list read with \<open>map_of\<close>. Numbers are integers:
  the wrapper never computes with a number, it only passes documents through.
\<close>

datatype json =
    JNull
  | JBool bool
  | JNum int
  | JStr string
  | JArr "json list"
  | JObj "(string \<times> json) list"

type_synonym py_dict = "(string \<times> json) list"

text \<open>
  Exceptions are values. Every constructor stands for a subclass of Python's
  \<^verbatim>\<open>Exception\<close>, so each of them is caught by \<^verbatim>\<open>except Exception\<close>. \<open>ApiError\<close> stands for
  whatever the Elasticsearch library raises (transport and API errors); the second
  argument of \<open>ConnectionError\<close> is its \<^verbatim>\<open>__cause__\<close>, set by \<^verbatim>\<open>raise ... from e\<close>.
\<close>

datatype py_exc =
    KeyError string
  | TypeError string
  | ApiError string
  | ConnectionError string "py_exc option"

text \<open>\<^verbatim>\<open>str(e)\<close>: the message; for a \<^verbatim>\<open>KeyError\<close> the quoted key.\<close>

fun str :: "py_exc \<Rightarrow> string" where
  "str (KeyError k) = [CHR 0x27] @ k @ [CHR 0x27]"
| "str (TypeError m) = m"
| "str (ApiError m) = m"
| "str (ConnectionError m c) = m"

text \<open>\<^verbatim>\<open>d.get(k)\<close> on a dictionary: the value, or \<^verbatim>\<open>None\<close> for a missing key.\<close>

definition dict_get :: "py_dict \<Rightarrow> string \<Rightarrow> json" where
  "dict_get d k = (case map_of d k of None \<Rightarrow> JNull | Some v \<Rightarrow> v)"

text \<open>\<^verbatim>\<open>x[k]\<close> with a string key: only a dictionary holding the key answers.\<close>

fun getitem :: "json \<Rightarrow> string \<Rightarrow> py_exc + json" where
  "getitem (JObj d) k = (case map_of d k of None \<Rightarrow> Inl (KeyError k) | Some v \<Rightarrow> Inr v)"
| "getitem JNull k = Inl (TypeError ''NoneType object is not subscriptable'')"
| "getitem (JBool b) k = Inl (TypeError ''bool object is not subscriptable'')"
| "getitem (JNum n) k = Inl (TypeError ''int object is not subscriptable'')"
| "getitem (JStr s) k = Inl (TypeError ''string indices must be integers'')"
| "getitem (JArr xs) k = Inl (TypeError ''list indices must be integers or slices, not str'')"

text \<open>Truth value of an object, as \<^verbatim>\<open>while hits:\<close> and \<^verbatim>\<open>if scroll_id:\<close> test it.\<close>

fun truthy :: "json \<Rightarrow> bool" where
  "truthy JNull = False"
| "truthy (JBool b) = b"
| "truthy (JNum n) = (n \<noteq> 0)"
| "truthy (JStr s) = (s \<noteq> [])"
| "truthy (JArr xs) = (xs \<noteq> [])"
| "truthy (JObj d) = (d \<noteq> [])"

text \<open>
  The elements \<^verbatim>\<open>for hit in hits\<close> runs through: the items of a list, the keys of a
  dictionary, the characters of a string; anything else is not iterable.
\<close>

fun iter :: "json \<Rightarrow> py_exc + json list" where
  "iter (JArr xs) = Inr xs"
| "iter (JObj d) = Inr (map (\<lambda>kv. JStr (fst kv)) d)"
| "iter (JStr s) = Inr (map (\<lambda>c. JStr [c]) s)"
| "iter JNull = Inl (TypeError ''NoneType object is not iterable'')"
| "iter (JBool b) = Inl (TypeError ''bool object is not iterable'')"
| "iter (JNum n) = Inl (TypeError ''int object is not iterable'')"

section \<open>The Elasticsearch library, a collaborator outside the repository\<close>

text \<open>
  The official client (\<^verbatim>\<open>from elasticsearch import Elasticsearch\<close>) and the server behind
  it are not part of the repository. They are a parameter of the model: \<open>'c\<close> is the
  low-level client object, \<open>'w\<close> the state of the world behind it (server and network).
  Each operation the wrapper calls takes the keyword arguments the wrapper passes, reads
  the world and returns the new one, with either the exception raised or the value
  returned.
\<close>

record ('c, 'w) es_lib =
  Elasticsearch :: "py_dict \<Rightarrow> py_exc + 'c"
  ping :: "'c \<Rightarrow> 'w \<Rightarrow> (py_exc + bool) \<times> 'w"
  index :: "'c \<Rightarrow> string \<Rightarrow> string option \<Rightarrow> json \<Rightarrow> 'w \<Rightarrow> (py_exc + json) \<times> 'w"
  search :: "'c \<Rightarrow> string \<Rightarrow> json \<Rightarrow> string \<Rightarrow> int \<Rightarrow> 'w \<Rightarrow> (py_exc + py_dict) \<times> 'w"
  scroll :: "'c \<Rightarrow> json \<Rightarrow> string \<Rightarrow> 'w \<Rightarrow> (py_exc + py_dict) \<times> 'w"
  clear_scroll :: "'c \<Rightarrow> json \<Rightarrow> 'w \<Rightarrow> (py_exc + json) \<times> 'w"
  close_conn :: "'c \<Rightarrow> 'w \<Rightarrow> (py_exc + json) \<times> 'w"

section \<open>The wrapper: \<^verbatim>\<open>class ElasticsearchClient\<close>\<close>

record 'c ElasticsearchClient =
  client :: 'c

subsection \<open>\<^verbatim>\<open>__init__\<close>\<close>

definition connection_params :: "string \<Rightarrow> string \<Rightarrow> string option \<Rightarrow> py_dict" where
  "connection_params endpoint api_key ca_cert =
     [(''hosts'', JArr [JStr endpoint]), (''api_key'', JStr api_key)] @
     (case ca_cert of
        None \<Rightarrow> []
      | Some c \<Rightarrow> [(''ca_certs'', JStr c), (''verify_certs'', JBool True)])"

definition failed_to_connect :: "string \<Rightarrow> py_exc \<Rightarrow> py_exc" where
  "failed_to_connect endpoint e =
     ConnectionError (''Failed to connect to Elasticsearch at '' @ endpoint @ '': '' @ str e) (Some e)"

definition init ::
  "('c, 'w) es_lib \<Rightarrow> string \<Rightarrow> string \<Rightarrow> string option \<Rightarrow> 'w
     \<Rightarrow> (py_exc + 'c ElasticsearchClient) \<times> 'w" where
  "init lib endpoint api_key ca_cert w =
     (case Elasticsearch lib (connection_params endpoint api_key ca_cert) of
        Inl e \<Rightarrow> (Inl e, w)
      | Inr c \<Rightarrow>
          (case ping lib c w of
             (Inl e, w') \<Rightarrow> (Inl (failed_to_connect endpoint e), w')
           | (Inr alive, w') \<Rightarrow>
               if \<not> alive
               then (Inl (failed_to_connect endpoint
                       (ConnectionError (''Unable to connect to Elasticsearch at '' @ endpoint) None)), w')
               else (Inr \<lparr>client = c\<rparr>, w')))"

subsection \<open>\<^verbatim>\<open>upload_document\<close> and \<^verbatim>\<open>upload_documents\<close>\<close>

definition upload_document ::
  "('c, 'w) es_lib \<Rightarrow> 'c ElasticsearchClient \<Rightarrow> string \<Rightarrow> json \<Rightarrow> string option \<Rightarrow> 'w
     \<Rightarrow> (py_exc + json) \<times> 'w" where
  "upload_document lib self idx document doc_id w = index lib (client self) idx doc_id document w"

text \<open>
  The loop of \<^verbatim>\<open>upload_documents\<close> with its local list \<^verbatim>\<open>results\<close>. The documents the
  iterator returns are a list. The loop ends when the input does (no exception) or at the
  first upload that raises; the triple keeps the exception, the local list as it stands
  at that moment and the world.
\<close>

fun upload_loop ::
  "('c, 'w) es_lib \<Rightarrow> 'c ElasticsearchClient \<Rightarrow> string \<Rightarrow> json list \<Rightarrow> json list \<Rightarrow> 'w
     \<Rightarrow> py_exc option \<times> json list \<times> 'w" where
  "upload_loop lib self idx [] results w = (None, results, w)"
| "upload_loop lib self idx (document # documents) results w =
     (case upload_document lib self idx document None w of
        (Inl e, w') \<Rightarrow> (Some e, results, w')
      | (Inr result, w') \<Rightarrow> upload_loop lib self idx documents (results @ [result]) w')"

text \<open>
  What the caller gets: the list when the loop ends normally; when an upload raises, the
  exception alone (the local list goes away with the frame).
\<close>

definition upload_documents ::
  "('c, 'w) es_lib \<Rightarrow> 'c ElasticsearchClient \<Rightarrow> string \<Rightarrow> json list \<Rightarrow> 'w
     \<Rightarrow> (py_exc + json list) \<times> 'w" where
  "upload_documents lib self idx documents w =
     (case upload_loop lib self idx documents [] w of
        (None, results, w') \<Rightarrow> (Inr results, w')
      | (Some e, results, w') \<Rightarrow> (Inl e, w'))"

text \<open>The world the loop leaves behind.\<close>

definition world_after ::
  "('c, 'w) es_lib \<Rightarrow> 'c ElasticsearchClient \<Rightarrow> string \<Rightarrow> json list \<Rightarrow> 'w \<Rightarrow> 'w" where
  "world_after lib self idx documents w = snd (snd (upload_loop lib self idx documents [] w))"

subsection \<open>\<^verbatim>\<open>query\<close>\<close>

text \<open>The request body built at the top of \<^verbatim>\<open>query\<close>.\<close>

definition query_body :: "json option \<Rightarrow> string option \<Rightarrow> json" where
  "query_body query_dsl query_string =
     JObj [(''query'',
       (case query_dsl of
          Some q \<Rightarrow> q
        | None \<Rightarrow>
            (case query_string of
               Some s \<Rightarrow> JObj [(''query_string'', JObj [(''query'', JStr s)])]
             | None \<Rightarrow> JObj [(''match_all'', JObj [])])))]"

definition scroll_timeout :: string where
  "scroll_timeout = ''2m''"

text \<open>
  The parameter \<^verbatim>\<open>size\<close> is written \<open>page_size\<close> and \<^verbatim>\<open>query\<close> is written
  \<open>query_dsl\<close>, the plain names being taken.
  \<^verbatim>\<open>query\<close> contains \<^verbatim>\<open>yield\<close>, so it is a generator function: calling it binds the
  arguments and returns a generator object without running any line of the body. The
  generator object is one of
  \<^item> \<open>Created\<close>: not started, holding the arguments;
  \<^item> \<open>Suspended\<close>: stopped at a \<^verbatim>\<open>yield\<close>, holding the live locals \<^verbatim>\<open>scroll_id\<close> and
    \<^verbatim>\<open>hits\<close> and the hits the running \<^verbatim>\<open>for\<close> loop has not reached yet. Both \<^verbatim>\<open>yield\<close>
    statements are inside the \<^verbatim>\<open>try\<close> and both \<^verbatim>\<open>for\<close> loops continue at
    \<^verbatim>\<open>while hits:\<close>, so one constructor serves both;
  \<^item> \<open>Finished\<close>: the body has returned or raised.
\<close>

datatype 'c query_gen =
    Created "'c ElasticsearchClient" string "json option" "string option" int
  | Suspended "'c ElasticsearchClient" json json "json list"
  | Finished

text \<open>What a pull (\<^verbatim>\<open>next\<close>) gives the consumer.\<close>

datatype event = Yield json | StopIteration | Raise py_exc

definition query ::
  "('c, 'w) es_lib \<Rightarrow> 'c ElasticsearchClient \<Rightarrow> string \<Rightarrow> json option \<Rightarrow> string option \<Rightarrow> int
     \<Rightarrow> 'w \<Rightarrow> 'c query_gen \<times> 'w" where
  "query lib self idx query_dsl query_string page_size w =
     (Created self idx query_dsl query_string page_size, w)"

text \<open>The default \<^verbatim>\<open>size: int = 100\<close>.\<close>

definition default_size :: int where
  "default_size = 100"

text \<open>
  The \<^verbatim>\<open>finally\<close> block: clear the scroll context when \<^verbatim>\<open>scroll_id\<close> is truthy; an
  exception of \<^verbatim>\<open>clear_scroll\<close> is caught and dropped.
\<close>

definition finally_block ::
  "('c, 'w) es_lib \<Rightarrow> 'c ElasticsearchClient \<Rightarrow> json \<Rightarrow> 'w \<Rightarrow> 'w" where
  "finally_block lib self scroll_id w =
     (if truthy scroll_id
      then (case clear_scroll lib (client self) scroll_id w of
              (Inl e, w') \<Rightarrow> w'
            | (Inr r, w') \<Rightarrow> w')
      else w)"

text \<open>\<^verbatim>\<open>response["hits"]["hits"]\<close>.\<close>

definition response_hits :: "py_dict \<Rightarrow> py_exc + json" where
  "response_hits response =
     (case getitem (JObj response) ''hits'' of
        Inl e \<Rightarrow> Inl e
      | Inr h \<Rightarrow> getitem h ''hits'')"

text \<open>
  The body from inside a \<^verbatim>\<open>for hit in hits\<close> loop up to the next \<^verbatim>\<open>yield\<close>, return or
  raise; \<open>rest\<close> is what the loop has still to visit. With a hit left, its
  \<^verbatim>\<open>_source\<close> is yielded. With none left, control is at \<^verbatim>\<open>while hits:\<close>: a falsy page
  ends the body through the \<^verbatim>\<open>finally\<close> block; otherwise the next page is fetched and its
  \<^verbatim>\<open>for\<close> loop entered. Every exception raised here is inside the \<^verbatim>\<open>try\<close>, so the
  \<^verbatim>\<open>finally\<close> block runs before it reaches the consumer.
\<close>

function resume ::
  "('c, 'w) es_lib \<Rightarrow> 'c ElasticsearchClient \<Rightarrow> json \<Rightarrow> json \<Rightarrow> json list \<Rightarrow> 'w
     \<Rightarrow> event \<times> 'c query_gen \<times> 'w" where
  "resume lib self scroll_id hits (hit # rest) w =
     (case getitem hit ''_source'' of
        Inl e \<Rightarrow> (Raise e, Finished, finally_block lib self scroll_id w)
      | Inr source \<Rightarrow> (Yield source, Suspended self scroll_id hits rest, w))"
| "resume lib self scroll_id hits [] w =
     (if truthy hits
      then (case scroll lib (client self) scroll_id scroll_timeout w of
              (Inl e, w1) \<Rightarrow> (Raise e, Finished, finally_block lib self scroll_id w1)
            | (Inr response, w1) \<Rightarrow>
                (case response_hits response of
                   Inl e \<Rightarrow>
                     (Raise e, Finished,
                      finally_block lib self (dict_get response ''_scroll_id'') w1)
                 | Inr hits' \<Rightarrow>
                     (case iter hits' of
                        Inl e \<Rightarrow>
                          (Raise e, Finished,
                           finally_block lib self (dict_get response ''_scroll_id'') w1)
                      | Inr its \<Rightarrow>
                          resume lib self (dict_get response ''_scroll_id'') hits' its w1)))
      else (StopIteration, Finished, finally_block lib self scroll_id w))"
  by pat_completeness auto
termination
  by (relation "measure (\<lambda>(lib, self, scroll_id, hits, rest, w).
        if rest = [] \<and> truthy hits then 1 else 0)")
     (auto elim: iter.elims)

text \<open>
  \<^verbatim>\<open>next(gen)\<close>. The first pull runs the body from its first line: the search request is
  outside the \<^verbatim>\<open>try\<close>, so its exception reaches the consumer with no \<^verbatim>\<open>finally\<close>
  block; from \<^verbatim>\<open>response["hits"]["hits"]\<close> on, the body is inside the \<^verbatim>\<open>try\<close>.
\<close>

fun gen_next ::
  "('c, 'w) es_lib \<Rightarrow> 'c query_gen \<Rightarrow> 'w \<Rightarrow> event \<times> 'c query_gen \<times> 'w" where
  "gen_next lib (Created self idx query_dsl query_string page_size) w =
     (case search lib (client self) idx (query_body query_dsl query_string) scroll_timeout page_size w of
        (Inl e, w1) \<Rightarrow> (Raise e, Finished, w1)
      | (Inr response, w1) \<Rightarrow>
          (case response_hits response of
             Inl e \<Rightarrow>
               (Raise e, Finished, finally_block lib self (dict_get response ''_scroll_id'') w1)
           | Inr hits \<Rightarrow>
               (case iter hits of
                  Inl e \<Rightarrow>
                    (Raise e, Finished,
                     finally_block lib self (dict_get response ''_scroll_id'') w1)
                | Inr its \<Rightarrow> resume lib self (dict_get response ''_scroll_id'') hits its w1)))"
| "gen_next lib (Suspended self scroll_id hits rest) w = resume lib self scroll_id hits rest w"
| "gen_next lib Finished w = (StopIteration, Finished, w)"

text \<open>
  \<^verbatim>\<open>gen.close()\<close>, which Python also runs when an abandoned generator is collected:
  \<^verbatim>\<open>GeneratorExit\<close> is raised at the \<^verbatim>\<open>yield\<close> where the generator is suspended, the
  \<^verbatim>\<open>finally\<close> block runs, and \<^verbatim>\<open>close\<close> returns. A generator that has not started, or has
  finished, runs nothing.
\<close>

fun gen_close :: "('c, 'w) es_lib \<Rightarrow> 'c query_gen \<Rightarrow> 'w \<Rightarrow> 'c query_gen \<times> 'w" where
  "gen_close lib (Created self idx query_dsl query_string page_size) w = (Finished, w)"
| "gen_close lib (Suspended self scroll_id hits rest) w =
     (Finished, finally_block lib self scroll_id w)"
| "gen_close lib Finished w = (Finished, w)"

subsection \<open>Consumers of the generator\<close>

text \<open>
  A consumer is a sequence of actions on the generator object: pulls and a close. \<open>run\<close>
  performs them in order and lists what each pull gave.
\<close>

datatype action = Pull | Abandon

fun run ::
  "('c, 'w) es_lib \<Rightarrow> action list \<Rightarrow> 'c query_gen \<Rightarrow> 'w \<Rightarrow> event list \<times> 'c query_gen \<times> 'w" where
  "run lib [] g w = ([], g, w)"
| "run lib (Pull # as) g w =
     (case gen_next lib g w of
        (ev, g', w') \<Rightarrow> (case run lib as g' w' of (evs, g'', w'') \<Rightarrow> (ev # evs, g'', w'')))"
| "run lib (Abandon # as) g w =
     (case gen_close lib g w of (g', w') \<Rightarrow> run lib as g' w')"

text \<open>
  \<^verbatim>\<open>for doc in gen\<close> with an empty body, as \<^verbatim>\<open>list(gen)\<close> runs it: pull until the
  generator stops or raises, at most \<open>fuel\<close> times. The result is the documents received
  and how the loop ended: \<open>Some None\<close> on \<^verbatim>\<open>StopIteration\<close>, \<open>Some (Some e)\<close> when \<open>e\<close> was
  raised, \<open>None\<close> when the fuel ran out first.
\<close>

fun drain ::
  "('c, 'w) es_lib \<Rightarrow> nat \<Rightarrow> 'c query_gen \<Rightarrow> 'w
     \<Rightarrow> json list \<times> py_exc option option \<times> 'c query_gen \<times> 'w" where
  "drain lib 0 g w = ([], None, g, w)"
| "drain lib (Suc fuel) g w =
     (case gen_next lib g w of
        (Yield d, g', w') \<Rightarrow>
          (case drain lib fuel g' w' of (ds, r, g'', w'') \<Rightarrow> (d # ds, r, g'', w''))
      | (StopIteration, g', w') \<Rightarrow> ([], Some None, g', w')
      | (Raise e, g', w') \<Rightarrow> ([], Some (Some e), g', w'))"

subsection \<open>\<^verbatim>\<open>close\<close>\<close>

definition close ::
  "('c, 'w) es_lib \<Rightarrow> 'c ElasticsearchClient \<Rightarrow> 'w \<Rightarrow> (py_exc + json) \<times> 'w" where
  "close lib self w = close_conn lib (client self) w"

section \<open>Observing the requests the wrapper sends\<close>

text \<open>
  A request is one call of a library method with the keyword arguments of the call; a
  reply is what the call raised or returned. \<open>traced lib\<close> behaves as \<open>lib\<close> does and
  appends every call and its reply to a log carried beside the world.
\<close>

datatype request =
    Ping
  | Index string "string option" json
  | Search string json string int
  | Scroll json string
  | ClearScroll json
  | Close

datatype reply = Raised py_exc | Returned json

type_synonym log = "(request \<times> reply) list"

definition logged ::
  "request \<Rightarrow> ('a \<Rightarrow> json) \<Rightarrow> ('w \<Rightarrow> (py_exc + 'a) \<times> 'w) \<Rightarrow> 'w \<times> log
     \<Rightarrow> (py_exc + 'a) \<times> ('w \<times> log)" where
  "logged rq enc call wl =
     (case call (fst wl) of
        (Inl e, w') \<Rightarrow> (Inl e, (w', snd wl @ [(rq, Raised e)]))
      | (Inr v, w') \<Rightarrow> (Inr v, (w', snd wl @ [(rq, Returned (enc v))])))"

definition traced :: "('c, 'w) es_lib \<Rightarrow> ('c, 'w \<times> log) es_lib" where
  "traced lib =
     \<lparr> Elasticsearch = Elasticsearch lib,
       ping = (\<lambda>c. logged Ping JBool (ping lib c)),
       index = (\<lambda>c idx doc_id document.
                  logged (Index idx doc_id document) id (index lib c idx doc_id document)),
       search = (\<lambda>c idx body timeout page_size.
                  logged (Search idx body timeout page_size) JObj
                    (search lib c idx body timeout page_size)),
       scroll = (\<lambda>c scroll_id timeout.
                  logged (Scroll scroll_id timeout) JObj (scroll lib c scroll_id timeout)),
       clear_scroll = (\<lambda>c scroll_id. logged (ClearScroll scroll_id) id (clear_scroll lib c scroll_id)),
       close_conn = (\<lambda>c. logged Close id (close_conn lib c)) \<rparr>"

text \<open>
  The cursor a log ends with: the \<^verbatim>\<open>_scroll_id\<close> of the last search or scroll reply that
  came back, read as the wrapper reads it (\<^verbatim>\<open>response.get("_scroll_id")\<close>); \<^verbatim>\<open>None\<close> when
  no such reply is in the log.
\<close>

fun reply_cursor :: "json \<Rightarrow> request \<times> reply \<Rightarrow> json" where
  "reply_cursor c (Search idx body timeout page_size, Returned (JObj response)) =
     dict_get response ''_scroll_id''"
| "reply_cursor c (Scroll scroll_id timeout, Returned (JObj response)) =
     dict_get response ''_scroll_id''"
| "reply_cursor c other = c"

definition cursor_of :: "log \<Rightarrow> json" where
  "cursor_of l = foldl reply_cursor JNull l"

text \<open>
  The replies to a run of uploads: the acknowledgments, then the exception when the run
  ended with one.
\<close>

definition replies :: "py_exc option \<Rightarrow> json list \<Rightarrow> reply list" where
  "replies exit acks = map Returned acks @ (case exit of None \<Rightarrow> [] | Some e \<Rightarrow> [Raised e])"

section \<open>A paging server, as the scroll API behaves\<close>

text \<open>
  The server is outside the repository, so what it returns is a condition on the library
  parameter. This is what a server does that holds the hits \<open>pages\<close> still to deliver behind the cursor
  \<open>scroll_id\<close>: each scroll request returns the next page, which is not empty, with the
  cursor for the one after; when no page is left the scroll request returns an empty
  page.
\<close>

fun serves ::
  "('c, 'w) es_lib \<Rightarrow> 'c \<Rightarrow> json \<Rightarrow> json list list \<Rightarrow> 'w \<Rightarrow> bool" where
  "serves lib c scroll_id [] w =
     (case scroll lib c scroll_id scroll_timeout w of
        (Inl e, w') \<Rightarrow> False
      | (Inr response, w') \<Rightarrow> response_hits response = Inr (JArr []))"
| "serves lib c scroll_id (p # ps) w =
     (p \<noteq> [] \<and>
      (case scroll lib c scroll_id scroll_timeout w of
         (Inl e, w') \<Rightarrow> False
       | (Inr response, w') \<Rightarrow>
           response_hits response = Inr (JArr p) \<and>
           serves lib c (dict_get response ''_scroll_id'') ps w'))"

text \<open>A list cut into pages of \<open>n\<close> items, the last one possibly shorter.\<close>

function pages_of :: "nat \<Rightarrow> 'a list \<Rightarrow> 'a list list" where
  "pages_of n xs = (if n = 0 \<or> xs = [] then [] else take n xs # pages_of n (drop n xs))"
  by pat_completeness auto
termination
  by (relation "measure (\<lambda>(n, xs). length xs)") auto

text \<open>
  A search over the static list of matching hits \<open>hs\<close> with page size \<open>n\<close>: the search
  request returns the first \<open>n\<close> hits and a cursor, and the scroll requests deliver the
  rest in pages of \<open>n\<close>.
\<close>

definition serves_search ::
  "('c, 'w) es_lib \<Rightarrow> 'c \<Rightarrow> string \<Rightarrow> json \<Rightarrow> int \<Rightarrow> json list \<Rightarrow> 'w \<Rightarrow> bool" where
  "serves_search lib c idx body n hs w =
     (case search lib c idx body scroll_timeout n w of
        (Inl e, w') \<Rightarrow> False
      | (Inr response, w') \<Rightarrow>
          response_hits response = Inr (JArr (take (nat n) hs)) \<and>
          (hs = [] \<or>
           serves lib c (dict_get response ''_scroll_id'') (pages_of (nat n) (drop (nat n) hs)) w'))"

text \<open>The envelope of a hit around the indexed document, as the test double returns it.\<close>

definition hit_of :: "json \<Rightarrow> json" where
  "hit_of document = JObj [(''_index'', JStr ''logs''), (''_source'', document)]"

section \<open>A test double of the library\<close>

text \<open>
  A small in-memory stand-in for the library and its server, used to run the wrapper on
  concrete inputs. Its world holds the switches a test sets and what the server keeps.
\<close>

record fake_world =
  alive :: "bool option"
  stored :: "(string \<times> string option \<times> json) list"
  dataset :: "json list"
  search_down :: bool
  scroll_down :: bool
  clear_down :: bool
  page :: nat
  pending :: "json list"
  released :: "json list"

definition ack :: "string \<Rightarrow> string \<Rightarrow> json" where
  "ack idx i = JObj [(''_index'', JStr idx), (''_id'', JStr i), (''result'', JStr ''created'')]"

definition fake_index ::
  "unit \<Rightarrow> string \<Rightarrow> string option \<Rightarrow> json \<Rightarrow> fake_world \<Rightarrow> (py_exc + json) \<times> fake_world" where
  "fake_index c idx doc_id document w =
     (if document = JObj []
      then (Inl (ApiError ''mapper_parsing_exception''), w)
      else (Inr (ack idx (case doc_id of
                            Some i \<Rightarrow> i
                          | None \<Rightarrow> replicate (Suc (length (stored w))) CHR ''g'')),
            w\<lparr>stored := stored w @ [(idx, doc_id, document)]\<rparr>))"

definition fake_search ::
  "unit \<Rightarrow> string \<Rightarrow> json \<Rightarrow> string \<Rightarrow> int \<Rightarrow> fake_world \<Rightarrow> (py_exc + py_dict) \<times> fake_world" where
  "fake_search c idx body timeout n w =
     (if search_down w \<or> n \<le> 0
      then (Inl (ApiError ''search_phase_execution_exception''), w)
      else (Inr [(''_scroll_id'', JStr ''cursor''),
                 (''hits'', JObj [(''hits'', JArr (take (nat n) (dataset w)))])],
            w\<lparr>page := nat n, pending := drop (nat n) (dataset w)\<rparr>))"

definition fake_scroll ::
  "unit \<Rightarrow> json \<Rightarrow> string \<Rightarrow> fake_world \<Rightarrow> (py_exc + py_dict) \<times> fake_world" where
  "fake_scroll c scroll_id timeout w =
     (if scroll_down w \<or> scroll_id \<noteq> JStr ''cursor''
      then (Inl (ApiError ''search_context_missing_exception''), w)
      else (Inr [(''_scroll_id'', JStr ''cursor''),
                 (''hits'', JObj [(''hits'', JArr (take (page w) (pending w)))])],
            w\<lparr>pending := drop (page w) (pending w)\<rparr>))"

definition fake_clear_scroll ::
  "unit \<Rightarrow> json \<Rightarrow> fake_world \<Rightarrow> (py_exc + json) \<times> fake_world" where
  "fake_clear_scroll c scroll_id w =
     (if clear_down w
      then (Inl (ApiError ''clear_scroll failed''), w)
      else (Inr (JObj [(''succeeded'', JBool True)]), w\<lparr>released := released w @ [scroll_id]\<rparr>))"

definition fake :: "(unit, fake_world) es_lib" where
  "fake =
     \<lparr> Elasticsearch = (\<lambda>params. Inr ()),
       ping = (\<lambda>c w. (case alive w of
                         None \<Rightarrow> (Inl (ApiError ''connection refused''), w)
                       | Some b \<Rightarrow> (Inr b, w))),
       index = fake_index,
       search = fake_search,
       scroll = fake_scroll,
       clear_scroll = fake_clear_scroll,
       close_conn = (\<lambda>c w. (Inr JNull, w)) \<rparr>"

text \<open>The same library with a search request that raises a \<^verbatim>\<open>KeyError\<close>.\<close>

definition fake_search_keyerror ::
  "unit \<Rightarrow> string \<Rightarrow> json \<Rightarrow> string \<Rightarrow> int \<Rightarrow> fake_world \<Rightarrow> (py_exc + py_dict) \<times> fake_world" where
  "fake_search_keyerror c idx body timeout n w = (Inl (KeyError ''boom''), w)"

definition fake_keyerror :: "(unit, fake_world) es_lib" where
  "fake_keyerror = fake\<lparr>search := fake_search_keyerror\<rparr>"

definition world0 :: fake_world where
  "world0 =
     \<lparr> alive = Some True, stored = [], dataset = [], search_down = False, scroll_down = False,
       clear_down = False, page = 0, pending = [], released = [] \<rparr>"

definition me :: "unit ElasticsearchClient" where
  "me = \<lparr>client = ()\<rparr>"

definition doc1 :: json where
  "doc1 = JObj [(''user'', JStr ''a'')]"

definition doc2 :: json where
  "doc2 = JObj [(''user'', JStr ''b'')]"

definition docs3 :: "json list" where
  "docs3 = [doc1, doc2, JObj [(''user'', JStr ''c'')]]"

definition world3 :: fake_world where
  "world3 = world0\<lparr>dataset := map hit_of docs3\<rparr>"

section \<open>The command-line tool \<^verbatim>\<open>app/send_email.py\<close>\<close>




















section \<open>Relations between runs\<close>

text \<open>
  What holds of a generator object and the log of a traced run that started with an empty
  log: nothing is logged before the first pull; a suspended generator holds the cursor the
  log ends with; once the generator has finished, a truthy cursor has been cleared by the
  last request.
\<close>

definition released_ok :: "'c query_gen \<Rightarrow> log \<Rightarrow> bool" where
  "released_ok g l =
     (case g of
        Created self idx q qs n \<Rightarrow> l = []
      | Suspended self sid hits rest \<Rightarrow> cursor_of l = sid
      | Finished \<Rightarrow>
          truthy (cursor_of l) \<longrightarrow> l \<noteq> [] \<and> fst (last l) = ClearScroll (cursor_of l))"

text \<open>The same, of the outcome of a pull.\<close>

definition outcome_ok :: "event \<times> 'c query_gen \<times> 'w \<times> log \<Rightarrow> bool" where
  "outcome_ok out = released_ok (fst (snd out)) (snd (snd (snd out)))"

text \<open>The outcome of a pull on the traced library, without the log.\<close>

definition untraced :: "event \<times> 'c query_gen \<times> 'w \<times> log \<Rightarrow> event \<times> 'c query_gen \<times> 'w" where
  "untraced out = (fst out, fst (snd out), fst (snd (snd out)))"

text \<open>A pull that gives \<^verbatim>\<open>StopIteration\<close> or an exception leaves the generator finished.\<close>

definition ended :: "event \<times> 'c query_gen \<times> 'w \<Rightarrow> bool" where
  "ended out = (case fst out of Yield d \<Rightarrow> True | StopIteration \<Rightarrow> fst (snd out) = Finished
                 | Raise e \<Rightarrow> fst (snd out) = Finished)"

text \<open>
  Two outcomes with the same event and the same generator object, and the same world
  unless the generator has finished.
\<close>

definition same_but_release ::
  "event \<times> 'c query_gen \<times> 'w \<Rightarrow> event \<times> 'c query_gen \<times> 'w \<Rightarrow> bool" where
  "same_but_release out1 out2 =
     (fst out1 = fst out2 \<and> fst (snd out1) = fst (snd out2) \<and>
      (fst (snd out1) \<noteq> Finished \<longrightarrow> snd (snd out1) = snd (snd out2)))"

section \<open>Pagination\<close>

lemma concat_pages_of: "0 < n \<Longrightarrow> concat (pages_of n xs) = xs"
proof (induction n xs rule: pages_of.induct)
  case (1 n xs)
  then show ?case by (subst pages_of.simps) auto
qed

lemma drain_rest:
  assumes "map (\<lambda>h. getitem h ''_source'') rest = map Inr ds1"
    and "drain lib k (Suspended self sid hits []) w = (ds2, r, g', w')"
  shows "drain lib (length rest + k) (Suspended self sid hits rest) w = (ds1 @ ds2, r, g', w')"
  using assms
proof (induction rest arbitrary: ds1)
  case Nil
  then show ?case by simp
next
  case (Cons h rest)
  from Cons.prems(1) obtain d ds1' where ds1: "ds1 = d # ds1'"
    and h: "getitem h ''_source'' = Inr d"
    and rest: "map (\<lambda>h. getitem h ''_source'') rest = map Inr ds1'"
    by (cases ds1) auto
  from Cons.IH [OF rest Cons.prems(2)] show ?case
    by (simp add: ds1 h)
qed

lemma drain_pages:
  assumes "serves lib (client self) sid ps w"
    and "truthy hits"
    and "map (\<lambda>h. getitem h ''_source'') (concat ps) = map Inr ds"
    and "length (concat ps) < k"
  shows "\<exists>w'. drain lib k (Suspended self sid hits []) w = (ds, Some None, Finished, w')"
  using assms
proof (induction ps arbitrary: sid hits w ds k)
  case Nil
  then obtain k' where k: "k = Suc k'" by (cases k) auto
  from Nil show ?case
    by (auto simp: k split: prod.splits sum.splits)
next
  case (Cons p ps)
  from Cons.prems(1) obtain response w1 where
    sc: "scroll lib (client self) sid scroll_timeout w = (Inr response, w1)"
    and hits: "response_hits response = Inr (JArr p)"
    and p: "p \<noteq> []"
    and sv: "serves lib (client self) (dict_get response ''_scroll_id'') ps w1"
    by (auto split: prod.splits sum.splits)
  from p obtain h rest where pc: "p = h # rest" by (cases p) auto
  from Cons.prems(3) obtain d ds1 ds2 where ds: "ds = d # ds1 @ ds2"
    and h: "getitem h ''_source'' = Inr d"
    and r1: "map (\<lambda>h. getitem h ''_source'') rest = map Inr ds1"
    and r2: "map (\<lambda>h. getitem h ''_source'') (concat ps) = map Inr ds2"
    by (auto simp: pc append_eq_map_conv Cons_eq_map_conv)
  from Cons.prems(4) obtain k' where k: "k = Suc (length rest + k')" and k': "length (concat ps) < k'"
    by (auto simp: pc intro: that [of "k - Suc (length rest)"])
  have "truthy (JArr p)" using p by simp
  from Cons.IH [OF sv this r2 k'] obtain w' where
    "drain lib k' (Suspended self (dict_get response ''_scroll_id'') (JArr p) []) w1
       = (ds2, Some None, Finished, w')" by blast
  from drain_rest [OF r1 this]
  show ?case using Cons.prems(2)
    by (simp add: k sc hits pc h ds)
qed

text \<open>
  Claim C1. Over a static list of matching hits that the server delivers in pages of
  \<open>n\<close>, for any page size \<open>n\<close> of at least one, pulling from the sequence \<^verbatim>\<open>query\<close>
  returns until it stops gives the document of every matching hit, once each and in the
  server's order, and then the sequence ends normally. The documents received are the
  list \<open>ds\<close> whatever \<open>n\<close> is, so the page size sets the number of round trips only.
  The pulls return: any fuel above the number of hits is enough.
\<close>

theorem query_pagination_transparent:
  assumes "0 < n"
    and "serves_search lib (client self) idx (query_body q qs) n hs w"
    and "map (\<lambda>h. getitem h ''_source'') hs = map Inr ds"
    and "length hs < fuel"
  shows "\<exists>w'. drain lib fuel (fst (query lib self idx q qs n w)) w = (ds, Some None, Finished, w')"
proof -
  from assms(2) obtain response w1 where
    se: "search lib (client self) idx (query_body q qs) scroll_timeout n w = (Inr response, w1)"
    and hits: "response_hits response = Inr (JArr (take (nat n) hs))"
    and sv: "hs = [] \<or> serves lib (client self) (dict_get response ''_scroll_id'')
               (pages_of (nat n) (drop (nat n) hs)) w1"
    by (auto simp: serves_search_def split: prod.splits sum.splits)
  from assms(4) obtain k where fuel: "fuel = Suc k" by (cases fuel) auto
  show ?thesis
  proof (cases hs)
    case Nil
    with assms(3) show ?thesis
      by (simp add: query_def fuel se hits)
  next
    case (Cons h hs')
    let ?p = "take (nat n) hs"
    let ?rest = "take (nat n - 1) hs'"
    from assms(1) Cons have p: "?p = h # ?rest"
      by (cases "nat n") auto
    from assms(1) have cat: "concat (pages_of (nat n) (drop (nat n) hs)) = drop (nat n) hs"
      by (intro concat_pages_of) simp
    have split: "hs = h # ?rest @ drop (nat n) hs"
      using p append_take_drop_id [of "nat n" hs] by simp
    from assms(3) obtain d ds1 ds2 where ds: "ds = d # ds1 @ ds2"
      and h: "getitem h ''_source'' = Inr d"
      and r1: "map (\<lambda>h. getitem h ''_source'') ?rest = map Inr ds1"
      and r2: "map (\<lambda>h. getitem h ''_source'') (drop (nat n) hs) = map Inr ds2"
      by (subst (asm) split) (auto simp: append_eq_map_conv Cons_eq_map_conv)
    have len: "length hs = Suc (length ?rest + length (drop (nat n) hs))"
      using arg_cong [OF split, of length] by (simp del: length_take length_drop)
    define k' where "k' = k - length ?rest"
    from len assms(4) have k: "k = length ?rest + k'"
      and k': "length (drop (nat n) hs) < k'"
      unfolding k'_def fuel by linarith+
    have t: "truthy (JArr ?p)" by (simp add: p)
    from sv Cons have "serves lib (client self) (dict_get response ''_scroll_id'')
               (pages_of (nat n) (drop (nat n) hs)) w1" by simp
    from drain_pages [OF this t, of ds2 k'] r2 k' cat obtain w' where
      "drain lib k' (Suspended self (dict_get response ''_scroll_id'') (JArr ?p) []) w1
         = (ds2, Some None, Finished, w')" by auto
    from drain_rest [OF r1 this] show ?thesis
      by (simp add: query_def fuel se hits p h ds k)
  qed
qed

lemma fake_serves_page_2:
  "serves_search fake (client me) ''logs'' (query_body None None) 2 (map hit_of docs3) world3"
  by (simp add: serves_search_def fake_def fake_search_def fake_scroll_def world3_def world0_def
      docs3_def doc1_def doc2_def me_def response_hits_def dict_get_def scroll_timeout_def hit_of_def)

lemma fake_serves_page_1:
  "serves_search fake (client me) ''logs'' (query_body None None) 1 (map hit_of docs3) world3"
  by (simp add: serves_search_def fake_def fake_search_def fake_scroll_def world3_def world0_def
      docs3_def doc1_def doc2_def me_def response_hits_def dict_get_def scroll_timeout_def hit_of_def)

lemma fake_serves_page_1000:
  "serves_search fake (client me) ''logs'' (query_body None None) 1000 (map hit_of docs3) world3"
  by (simp add: serves_search_def fake_def fake_search_def fake_scroll_def world3_def world0_def
      docs3_def doc1_def doc2_def me_def response_hits_def dict_get_def scroll_timeout_def hit_of_def)

lemma docs3_sources: "map (\<lambda>h. getitem h ''_source'') (map hit_of docs3) = map Inr docs3"
  by (simp add: hit_of_def docs3_def doc1_def doc2_def)

theorem query_pagination_transparent_witness:
  "0 < (2::int)
   \<and> serves_search fake (client me) ''logs'' (query_body None None) 2 (map hit_of docs3) world3
   \<and> map (\<lambda>h. getitem h ''_source'') (map hit_of docs3) = map Inr docs3
   \<and> (\<exists>w'. drain fake 4 (fst (query fake me ''logs'' None None 2 world3)) world3
              = (docs3, Some None, Finished, w'))
   \<and> (\<exists>w'. drain fake 4 (fst (query fake me ''logs'' None None 1 world3)) world3
              = (docs3, Some None, Finished, w'))
   \<and> (\<exists>w'. drain fake 4 (fst (query fake me ''logs'' None None 1000 world3)) world3
              = (docs3, Some None, Finished, w'))"
  using query_pagination_transparent [where fuel = 4, OF _ fake_serves_page_2 docs3_sources]
    query_pagination_transparent [where fuel = 4, OF _ fake_serves_page_1 docs3_sources]
    query_pagination_transparent [where fuel = 4, OF _ fake_serves_page_1000 docs3_sources]
    fake_serves_page_2 docs3_sources
  by (simp add: docs3_def doc1_def doc2_def)

section \<open>The generator and its cursor\<close>

lemma released_ok_Created: "released_ok (Created self idx q qs n) l = (l = [])"
  by (simp add: released_ok_def)

lemma released_ok_Suspended: "released_ok (Suspended self sid hits rest) l = (cursor_of l = sid)"
  by (simp add: released_ok_def)

lemma iter_Nil_not_truthy: "iter x = Inr [] \<Longrightarrow> \<not> truthy x"
  by (cases x) auto

lemma resume_page_end:
  "resume lib self sid hits [] w =
     (if truthy hits
      then (case scroll lib (client self) sid scroll_timeout w of
              (Inl e, w1) \<Rightarrow> (Raise e, Finished, finally_block lib self sid w1)
            | (Inr response, w1) \<Rightarrow>
                (case response_hits response of
                   Inl e \<Rightarrow>
                     (Raise e, Finished, finally_block lib self (dict_get response ''_scroll_id'') w1)
                 | Inr hits' \<Rightarrow>
                     (case iter hits' of
                        Inl e \<Rightarrow>
                          (Raise e, Finished,
                           finally_block lib self (dict_get response ''_scroll_id'') w1)
                      | Inr [] \<Rightarrow>
                          (StopIteration, Finished,
                           finally_block lib self (dict_get response ''_scroll_id'') w1)
                      | Inr (h # r) \<Rightarrow>
                          resume lib self (dict_get response ''_scroll_id'') hits' (h # r) w1)))
      else (StopIteration, Finished, finally_block lib self sid w))"
  by (auto split: prod.splits sum.splits list.splits dest: iter_Nil_not_truthy)

lemma cursor_of_snoc: "cursor_of (l @ [x]) = reply_cursor (cursor_of l) x"
  by (simp add: cursor_of_def)

lemma finally_traced:
  "finally_block (traced lib) self sid (w, l) =
     (if truthy sid
      then (case clear_scroll lib (client self) sid w of
              (Inl e, w') \<Rightarrow> (w', l @ [(ClearScroll sid, Raised e)])
            | (Inr r, w') \<Rightarrow> (w', l @ [(ClearScroll sid, Returned r)]))
      else (w, l))"
  by (simp add: finally_block_def traced_def logged_def split: prod.splits sum.splits)

lemma finally_released:
  "cursor_of l = sid \<Longrightarrow> released_ok Finished (snd (finally_block (traced lib) self sid (w, l)))"
  by (auto simp: released_ok_def finally_traced cursor_of_snoc split: if_splits prod.splits sum.splits)

lemma scroll_traced:
  "scroll (traced lib) c sid t (w, l) =
     (case scroll lib c sid t w of
        (Inl e, w') \<Rightarrow> (Inl e, (w', l @ [(Scroll sid t, Raised e)]))
      | (Inr r, w') \<Rightarrow> (Inr r, (w', l @ [(Scroll sid t, Returned (JObj r))])))"
  by (simp add: traced_def logged_def split: prod.splits sum.splits)

lemma search_traced:
  "search (traced lib) c idx body t n (w, l) =
     (case search lib c idx body t n w of
        (Inl e, w') \<Rightarrow> (Inl e, (w', l @ [(Search idx body t n, Raised e)]))
      | (Inr r, w') \<Rightarrow> (Inr r, (w', l @ [(Search idx body t n, Returned (JObj r))])))"
  by (simp add: traced_def logged_def split: prod.splits sum.splits)

lemma resume_hit_released:
  "cursor_of l = sid \<Longrightarrow> outcome_ok (resume (traced lib) self sid hits (h # r) (w, l))"
  by (simp add: outcome_ok_def released_ok_Suspended finally_released split: sum.splits)

lemma resume_released:
  assumes "cursor_of l = sid"
  shows "outcome_ok (resume (traced lib) self sid hits rest (w, l))"
proof (cases rest)
  case (Cons h r)
  with assms show ?thesis by (simp only: resume_hit_released)
next
  case Nil
  have fin: "outcome_ok (ev, Finished, finally_block (traced lib) self sid' (w1, l1))"
    if "cursor_of l1 = sid'" for ev sid' w1 l1
    using finally_released [OF that] by (simp add: outcome_ok_def)
  have c: "cursor_of (l @ [(Scroll sid scroll_timeout, Returned (JObj response))])
      = dict_get response ''_scroll_id''" for response
    by (simp add: cursor_of_snoc)
  have d: "cursor_of (l @ [(Scroll sid scroll_timeout, Raised e)]) = sid" for e
    using assms by (simp add: cursor_of_snoc)
  show ?thesis
    unfolding Nil resume_page_end scroll_traced
    by (simp add: fin assms c d resume_hit_released del: resume.simps
        split: prod.splits sum.splits list.splits)
qed

lemma next_released:
  assumes "released_ok g l"
  shows "outcome_ok (gen_next (traced lib) g (w, l))"
proof (cases g)
  case (Created self idx q qs n)
  have fin: "outcome_ok (ev, Finished, finally_block (traced lib) self sid' (w1, l1))"
    if "cursor_of l1 = sid'" for ev sid' w1 l1
    using finally_released [OF that] by (simp add: outcome_ok_def)
  have c: "cursor_of [(Search idx body t n, Returned (JObj response))]
      = dict_get response ''_scroll_id''" for response body t
    by (simp add: cursor_of_def)
  have d: "outcome_ok (Raise e, Finished, (w1, [(Search idx body t n, Raised e)]))" for e w1 body t
    by (simp add: outcome_ok_def released_ok_def cursor_of_def)
  from assms Created have l: "l = []" by (simp add: released_ok_Created)
  show ?thesis
    unfolding Created gen_next.simps search_traced
    by (simp add: fin c d l resume_released del: resume.simps
        split: prod.splits sum.splits list.splits)
next
  case (Suspended self sid hits rest)
  with assms show ?thesis
    by (simp add: released_ok_Suspended resume_released del: resume.simps)
next
  case Finished
  with assms show ?thesis by (simp add: outcome_ok_def)
qed

lemma close_released:
  assumes "released_ok g l"
  shows "released_ok (fst (gen_close (traced lib) g (w, l))) (snd (snd (gen_close (traced lib) g (w, l))))"
proof (cases g)
  case (Created self idx q qs n)
  with assms show ?thesis by (simp add: released_ok_def cursor_of_def)
next
  case (Suspended self sid hits rest)
  with assms show ?thesis by (simp add: released_ok_Suspended finally_released)
next
  case Finished
  with assms show ?thesis by simp
qed

lemma run_released:
  "released_ok g l \<Longrightarrow> run (traced lib) acts g (w, l) = (evs, g', (w', l')) \<Longrightarrow> released_ok g' l'"
proof (induction acts arbitrary: g w l evs)
  case Nil
  then show ?case by simp
next
  case (Cons a acts)
  show ?case
  proof (cases a)
    case Pull
    obtain ev g1 w1 l1 where n: "gen_next (traced lib) g (w, l) = (ev, g1, (w1, l1))"
      by (metis prod.exhaust)
    from next_released [OF Cons.prems(1), of lib w] n have ok: "released_ok g1 l1"
      by (simp add: outcome_ok_def)
    obtain evs1 where "run (traced lib) acts g1 (w1, l1) = (evs1, g', (w', l'))"
      using Cons.prems(2) Pull n by (auto split: prod.splits)
    from Cons.IH [OF ok this] show ?thesis .
  next
    case Abandon
    obtain g1 w1 l1 where n: "gen_close (traced lib) g (w, l) = (g1, (w1, l1))"
      by (metis prod.exhaust)
    from close_released [OF Cons.prems(1), of lib w] n have ok: "released_ok g1 l1"
      by simp
    have "run (traced lib) acts g1 (w1, l1) = (evs, g', (w', l'))"
      using Cons.prems(2) Abandon n by simp
    from Cons.IH [OF ok this] show ?thesis .
  qed
qed

lemma finally_untraced:
  "fst (finally_block (traced lib) self sid (w, l)) = finally_block lib self sid w"
  by (simp add: finally_traced finally_block_def [of lib] split: prod.splits sum.splits)

lemma resume_hit_untraced:
  "untraced (resume (traced lib) self sid hits (h # r) (w, l)) = resume lib self sid hits (h # r) w"
  by (simp add: untraced_def finally_untraced split: sum.splits)

lemma resume_untraced:
  "untraced (resume (traced lib) self sid hits rest (w, l)) = resume lib self sid hits rest w"
proof (cases rest)
  case (Cons h r)
  then show ?thesis by (simp only: resume_hit_untraced)
next
  case Nil
  have fin: "untraced (ev, Finished, finally_block (traced lib) self sid' (w1, l1))
      = (ev, Finished, finally_block lib self sid' w1)" for ev sid' w1 l1
    by (simp add: untraced_def finally_untraced)
  show ?thesis
    unfolding Nil resume_page_end [of "traced lib"] resume_page_end [of lib] scroll_traced
    by (simp add: fin resume_hit_untraced del: resume.simps
        split: prod.splits sum.splits list.splits)
qed

lemma next_untraced:
  "untraced (gen_next (traced lib) g (w, l)) = gen_next lib g w"
proof (cases g)
  case (Created self idx q qs n)
  have fin: "untraced (ev, Finished, finally_block (traced lib) self sid' (w1, l1))
      = (ev, Finished, finally_block lib self sid' w1)" for ev sid' w1 l1
    by (simp add: untraced_def finally_untraced)
  have r: "untraced (ev, Finished, (w1, l1)) = (ev, Finished, w1)" for ev w1 l1
    by (simp add: untraced_def)
  show ?thesis
    unfolding Created gen_next.simps search_traced
    by (simp add: fin r resume_untraced del: resume.simps
        split: prod.splits sum.splits list.splits)
next
  case (Suspended self sid hits rest)
  then show ?thesis by (simp add: resume_untraced del: resume.simps)
next
  case Finished
  then show ?thesis by (simp add: untraced_def)
qed

lemma close_untraced:
  "fst (gen_close (traced lib) g (w, l)) = fst (gen_close lib g w)
   \<and> fst (snd (gen_close (traced lib) g (w, l))) = snd (gen_close lib g w)"
  by (cases g) (simp_all add: finally_untraced)

lemma run_untraced:
  "run (traced lib) acts g (w, l) = (evs, g', (w', l')) \<Longrightarrow> run lib acts g w = (evs, g', w')"
proof (induction acts arbitrary: g w l evs)
  case Nil
  then show ?case by simp
next
  case (Cons a acts)
  show ?case
  proof (cases a)
    case Pull
    obtain ev g1 w1 l1 where n: "gen_next (traced lib) g (w, l) = (ev, g1, (w1, l1))"
      by (metis prod.exhaust)
    with next_untraced [of lib g w l] have n': "gen_next lib g w = (ev, g1, w1)"
      by (simp add: untraced_def)
    obtain evs1 where r: "run (traced lib) acts g1 (w1, l1) = (evs1, g', (w', l'))"
      and e: "evs = ev # evs1"
      using Cons.prems Pull n by (auto split: prod.splits)
    from Cons.IH [OF r] n' e Pull show ?thesis by simp
  next
    case Abandon
    obtain g1 w1 l1 where n: "gen_close (traced lib) g (w, l) = (g1, (w1, l1))"
      by (metis prod.exhaust)
    with close_untraced [of lib g w l] have n': "gen_close lib g w = (g1, w1)"
      by (cases "gen_close lib g w") simp
    have "run (traced lib) acts g1 (w1, l1) = (evs, g', (w', l'))"
      using Cons.prems Abandon n by simp
    from Cons.IH [OF this] n' Abandon show ?thesis by simp
  qed
qed

lemma resume_ended: "ended (resume lib self sid hits rest w)"
proof (cases rest)
  case (Cons h r)
  then show ?thesis by (simp add: ended_def split: sum.splits)
next
  case Nil
  show ?thesis
    unfolding Nil resume_page_end
    by (simp add: ended_def split: prod.splits sum.splits list.splits)
qed

lemma next_ended: "ended (gen_next lib g w)"
proof (cases g)
  case (Created self idx q qs n)
  have a: "ended (Raise e, Finished, w1)" for e and w1 :: 'b
    by (simp add: ended_def)
  show ?thesis
    unfolding Created gen_next.simps
    by (simp add: a resume_ended del: resume.simps split: prod.splits sum.splits)
next
  case (Suspended self sid hits rest)
  then show ?thesis by (simp add: resume_ended del: resume.simps)
next
  case Finished
  then show ?thesis by (simp add: ended_def)
qed

lemma close_finished: "fst (gen_close lib g w) = Finished"
  by (cases g) simp_all

lemma run_from_finished: "fst (snd (run lib acts Finished w)) = Finished"
proof (induction acts arbitrary: w)
  case Nil
  show ?case by simp
next
  case (Cons a acts)
  from Cons [of w] show ?case
    by (cases a; cases "run lib acts Finished w") simp_all
qed

lemma run_exit:
  assumes "run lib acts g w = (evs, g', w')"
    and "Abandon \<in> set acts \<or> StopIteration \<in> set evs \<or> (\<exists>e. Raise e \<in> set evs)"
  shows "g' = Finished"
  using assms
proof (induction acts arbitrary: g w evs)
  case Nil
  then show ?case by auto
next
  case (Cons a acts)
  show ?case
  proof (cases a)
    case Pull
    obtain ev g1 w1 where n: "gen_next lib g w = (ev, g1, w1)"
      by (metis prod.exhaust)
    obtain evs1 where r: "run lib acts g1 w1 = (evs1, g', w')" and e: "evs = ev # evs1"
      using Cons.prems(1) Pull n by (auto split: prod.splits)
    show ?thesis
    proof (cases "\<exists>d. ev = Yield d")
      case True
      with Cons.prems(2) Pull e
      have "Abandon \<in> set acts \<or> StopIteration \<in> set evs1 \<or> (\<exists>e. Raise e \<in> set evs1)"
        by auto
      from Cons.IH [OF r this] show ?thesis .
    next
      case False
      with next_ended [of lib g w] n have "g1 = Finished"
        by (cases ev) (auto simp: ended_def)
      with r run_from_finished [of lib acts w1] show ?thesis by simp
    qed
  next
    case Abandon
    obtain g1 w1 where n: "gen_close lib g w = (g1, w1)"
      by (metis prod.exhaust)
    with close_finished [of lib g w] have g1: "g1 = Finished" by simp
    have "run lib acts g1 w1 = (evs, g', w')"
      using Cons.prems(1) Abandon n by simp
    with g1 run_from_finished [of lib acts w1] show ?thesis by simp
  qed
qed

lemma same_but_release_Finished: "same_but_release (ev, Finished, w1) (ev, Finished, w2)"
  by (simp add: same_but_release_def)

lemma same_but_release_refl: "same_but_release out out"
  by (simp add: same_but_release_def)

lemma resume_hit_indep:
  "same_but_release (resume (lib\<lparr>clear_scroll := cs\<rparr>) self sid hits (h # r) w)
     (resume lib self sid hits (h # r) w)"
  by (simp add: same_but_release_Finished same_but_release_refl split: sum.splits)

lemma resume_indep:
  "same_but_release (resume (lib\<lparr>clear_scroll := cs\<rparr>) self sid hits rest w)
     (resume lib self sid hits rest w)"
proof (cases rest)
  case (Cons h r)
  then show ?thesis by (simp only: resume_hit_indep)
next
  case Nil
  show ?thesis
    unfolding Nil resume_page_end [of "lib\<lparr>clear_scroll := cs\<rparr>"] resume_page_end [of lib]
    by (simp add: same_but_release_Finished resume_hit_indep del: resume.simps
        split: prod.splits sum.splits list.splits)
qed

lemma next_indep:
  "same_but_release (gen_next (lib\<lparr>clear_scroll := cs\<rparr>) g w) (gen_next lib g w)"
proof (cases g)
  case (Created self idx q qs n)
  show ?thesis
    unfolding Created gen_next.simps
    by (simp add: same_but_release_Finished resume_indep del: resume.simps
        split: prod.splits sum.splits list.splits)
next
  case (Suspended self sid hits rest)
  then show ?thesis by (simp add: resume_indep del: resume.simps)
next
  case Finished
  then show ?thesis by (simp add: same_but_release_Finished)
qed

lemma next_from_finished: "gen_next lib Finished w = (StopIteration, Finished, w)"
  by simp

lemma run_indep:
  "g \<noteq> Finished \<longrightarrow> w2 = w \<Longrightarrow>
     fst (run (lib\<lparr>clear_scroll := cs\<rparr>) acts g w2) = fst (run lib acts g w)"
proof (induction acts arbitrary: g w w2)
  case Nil
  show ?case by simp
next
  case (Cons a acts)
  let ?lib' = "lib\<lparr>clear_scroll := cs\<rparr>"
  show ?case
  proof (cases a)
    case Pull
    obtain ev g1 w1 where n: "gen_next lib g w = (ev, g1, w1)"
      by (metis prod.exhaust)
    obtain ev' g1' w1' where n': "gen_next ?lib' g w2 = (ev', g1', w1')"
      by (metis prod.exhaust)
    have "ev' = ev \<and> g1' = g1 \<and> (g1 \<noteq> Finished \<longrightarrow> w1' = w1)"
    proof (cases "g = Finished")
      case True
      with n n' show ?thesis by simp
    next
      case False
      with Cons.prems have "w2 = w" by simp
      with next_indep [where lib = lib and cs = cs and g = g and w = w] n n' show ?thesis
        by (simp add: same_but_release_def)
    qed
    then have e: "ev' = ev" and g: "g1' = g1" and w: "g1 \<noteq> Finished \<longrightarrow> w1' = w1"
      by simp_all
    from Cons.IH [OF w] show ?thesis
      by (cases "run ?lib' acts g1 w1'"; cases "run lib acts g1 w1") (simp add: Pull n n' e g)
  next
    case Abandon
    have "fst (gen_close ?lib' g w2) = Finished" "fst (gen_close lib g w) = Finished"
      by (rule close_finished)+
    then obtain wa wb where c: "gen_close ?lib' g w2 = (Finished, wa)"
      "gen_close lib g w = (Finished, wb)"
      by (metis prod.collapse)
    have "Finished \<noteq> Finished \<longrightarrow> wa = wb" by simp
    from Cons.IH [OF this] show ?thesis
      by (simp add: Abandon c)
  qed
qed

lemmas fake_defs =
  query_def query_body_def fake_def fake_search_def fake_scroll_def fake_clear_scroll_def
  world3_def world0_def docs3_def doc1_def doc2_def hit_of_def response_hits_def dict_get_def
  scroll_timeout_def me_def finally_block_def

lemma finally_prefix:
  "prefix l0 l \<Longrightarrow> prefix l0 (snd (finally_block (traced lib) self sid (w, l)))"
  by (auto simp: finally_traced split: prod.splits sum.splits intro: prefix_order.trans)

lemma resume_hit_prefix:
  "prefix l0 l \<Longrightarrow> prefix l0 (snd (snd (snd (resume (traced lib) self sid hits (h # r) (w, l)))))"
  by (simp add: finally_prefix split: sum.splits)

lemma resume_prefix:
  assumes "prefix l0 l"
  shows "prefix l0 (snd (snd (snd (resume (traced lib) self sid hits rest (w, l)))))"
proof (cases rest)
  case (Cons h r)
  with assms show ?thesis by (simp only: resume_hit_prefix)
next
  case Nil
  have p: "prefix l0 (l @ [x])" for x
    using assms by (rule prefix_order.trans) simp
  show ?thesis
    unfolding Nil resume_page_end scroll_traced
    by (simp add: assms p finally_prefix resume_hit_prefix del: resume.simps
        split: prod.splits sum.splits list.splits)
qed

text \<open>
  Claim C2. Take any consumer of a fresh \<^verbatim>\<open>query\<close> generator that ends the iteration:
  it pulls until \<^verbatim>\<open>StopIteration\<close>, or a pull raises, or it abandons the generator. Then
  the generator has finished, and if a cursor is held (the \<^verbatim>\<open>_scroll_id\<close> of the last
  reply is truthy) the last request sent is the \<^verbatim>\<open>clear_scroll\<close> of that cursor. What
  \<^verbatim>\<open>clear_scroll\<close> does, raising included, changes nothing the consumer receives: the
  events are the same for every behaviour \<open>cs\<close> of \<^verbatim>\<open>clear_scroll\<close>.
\<close>

theorem cursor_released_on_every_exit:
  assumes "run (traced lib) acts (fst (query (traced lib) self idx q qs n (w, []))) (w, [])
             = (evs, g', (w', l))"
    and "Abandon \<in> set acts \<or> StopIteration \<in> set evs \<or> (\<exists>e. Raise e \<in> set evs)"
  shows "g' = Finished
     \<and> (truthy (cursor_of l) \<longrightarrow> l \<noteq> [] \<and> fst (last l) = ClearScroll (cursor_of l))
     \<and> fst (run (lib\<lparr>clear_scroll := cs\<rparr>) acts (fst (query lib self idx q qs n w)) w) = evs"
proof -
  let ?g = "Created self idx q qs n"
  from assms(1) have r: "run (traced lib) acts ?g (w, []) = (evs, g', (w', l))"
    by (simp add: query_def)
  from run_exit [OF r assms(2)] have fin: "g' = Finished" .
  have "released_ok ?g []" by (simp add: released_ok_Created)
  from run_released [OF this r] fin
  have rel: "truthy (cursor_of l) \<longrightarrow> l \<noteq> [] \<and> fst (last l) = ClearScroll (cursor_of l)"
    by (simp add: released_ok_def)
  from run_untraced [OF r] have "fst (run lib acts ?g w) = evs" by simp
  moreover have "fst (run (lib\<lparr>clear_scroll := cs\<rparr>) acts ?g w) = fst (run lib acts ?g w)"
    by (rule run_indep) simp
  ultimately show ?thesis using fin rel by (simp add: query_def)
qed

theorem cursor_released_on_every_exit_witness:
  "fst (run (traced fake) [Pull, Pull, Pull, Pull]
          (fst (query (traced fake) me ''logs'' None None 2 (world3\<lparr>clear_down := True\<rparr>, [])))
          (world3\<lparr>clear_down := True\<rparr>, []))
     = [Yield doc1, Yield doc2, Yield (JObj [(''user'', JStr ''c'')]), StopIteration]
   \<and> last (snd (snd (snd (run (traced fake) [Pull, Pull, Pull, Pull]
          (fst (query (traced fake) me ''logs'' None None 2 (world3\<lparr>clear_down := True\<rparr>, [])))
          (world3\<lparr>clear_down := True\<rparr>, [])))))
     = (ClearScroll (JStr ''cursor''), Raised (ApiError ''clear_scroll failed''))
   \<and> fst (run (fake\<lparr>clear_scroll := (\<lambda>c scroll_id w. (Inr JNull, w))\<rparr>) [Pull, Pull, Pull, Pull]
          (fst (query fake me ''logs'' None None 2 (world3\<lparr>clear_down := True\<rparr>)))
          (world3\<lparr>clear_down := True\<rparr>))
     = [Yield doc1, Yield doc2, Yield (JObj [(''user'', JStr ''c'')]), StopIteration]
   \<and> fst (snd (run (traced fake) [Pull, Abandon]
          (fst (query (traced fake) me ''logs'' None None 2 (world3, []))) (world3, [])))
     = Finished
   \<and> fst (last (snd (snd (snd (run (traced fake) [Pull, Abandon]
          (fst (query (traced fake) me ''logs'' None None 2 (world3, []))) (world3, []))))))
     = ClearScroll (JStr ''cursor'')"
proof -
  let ?wc = "world3\<lparr>clear_down := True\<rparr>"
  let ?r = "run (traced fake) [Pull, Pull, Pull, Pull]
          (fst (query (traced fake) me ''logs'' None None 2 (?wc, []))) (?wc, [])"
  let ?a = "run (traced fake) [Pull, Abandon]
          (fst (query (traced fake) me ''logs'' None None 2 (world3, []))) (world3, [])"
  have ev: "fst ?r = [Yield doc1, Yield doc2, Yield (JObj [(''user'', JStr ''c'')]), StopIteration]"
    by (simp add: fake_defs traced_def logged_def)
  have lg: "last (snd (snd (snd ?r)))
     = (ClearScroll (JStr ''cursor''), Raised (ApiError ''clear_scroll failed''))"
    by (simp add: fake_defs traced_def logged_def)
  have cur: "cursor_of (snd (snd (snd ?r))) = JStr ''cursor''"
    by (simp add: fake_defs traced_def logged_def cursor_of_def)
  have cur': "cursor_of (snd (snd (snd ?a))) = JStr ''cursor''"
    by (simp add: fake_defs traced_def logged_def cursor_of_def)
  have r: "?r = (fst ?r, fst (snd ?r), (fst (snd (snd ?r)), snd (snd (snd ?r))))" by simp
  have a: "?a = (fst ?a, fst (snd ?a), (fst (snd (snd ?a)), snd (snd (snd ?a))))" by simp
  have x: "Abandon \<in> set [Pull, Pull, Pull, Pull] \<or> StopIteration \<in> set (fst ?r)
      \<or> (\<exists>e. Raise e \<in> set (fst ?r))"
    by (simp only: ev) simp
  have y: "Abandon \<in> set [Pull, Abandon] \<or> StopIteration \<in> set (fst ?a)
      \<or> (\<exists>e. Raise e \<in> set (fst ?a))"
    by simp
  from cursor_released_on_every_exit [OF r x, of "\<lambda>c scroll_id w. (Inr JNull, w)"]
    cursor_released_on_every_exit [OF a y]
  show ?thesis
    by (simp only: ev lg cur cur') simp
qed

text \<open>
  Claim C5, as amended. The call of \<^verbatim>\<open>query\<close> does not fail: it returns the generator.
  When the initial search request fails, the first pull raises the exception the library
  raised, as it is (the wrapper has no exception class of its own for queries and wraps
  nothing), and the generator has finished. While hits of the current page are left, a
  pull yields the next one without any request. When the page is exhausted and the fetch
  of the next page fails, that pull raises the library's exception after the requests
  \<^verbatim>\<open>scroll\<close> and, for a truthy cursor, \<^verbatim>\<open>clear_scroll\<close>.
\<close>

theorem query_failure_reaches_the_consumer:
  "query lib self idx q qs n w = (Created self idx q qs n, w)
   \<and> (search lib (client self) idx (query_body q qs) scroll_timeout n w = (Inl e, w1) \<longrightarrow>
      gen_next lib (fst (query lib self idx q qs n w)) w = (Raise e, Finished, w1))
   \<and> (getitem h ''_source'' = Inr d \<longrightarrow>
        gen_next (traced lib) (Suspended self sid hits (h # rest)) (w, l)
          = (Yield d, Suspended self sid hits rest, (w, l)))
   \<and> (truthy hits \<and> scroll lib (client self) sid scroll_timeout w = (Inl e, w1) \<longrightarrow>
        gen_next lib (Suspended self sid hits []) w
          = (Raise e, Finished, finally_block lib self sid w1)
        \<and> snd (snd (snd (gen_next (traced lib) (Suspended self sid hits []) (w, l))))
          = l @ (Scroll sid scroll_timeout, Raised e) #
                (if truthy sid
                 then [(ClearScroll sid,
                        (case fst (clear_scroll lib (client self) sid w1) of
                           Inl x \<Rightarrow> Raised x
                         | Inr r \<Rightarrow> Returned r))]
                 else []))"
  by (simp add: query_def scroll_traced finally_traced split: prod.splits sum.splits)

theorem query_failure_reaches_the_consumer_witness:
  "gen_next fake (fst (query fake me ''logs'' None None 2 (world3\<lparr>search_down := True\<rparr>)))
       (world3\<lparr>search_down := True\<rparr>)
     = (Raise (ApiError ''search_phase_execution_exception''), Finished,
        world3\<lparr>search_down := True\<rparr>)
   \<and> run fake [Pull, Pull] (fst (query fake me ''logs'' None None 2 (world3\<lparr>scroll_down := True\<rparr>)))
       (world3\<lparr>scroll_down := True\<rparr>)
     = ([Yield doc1, Yield doc2],
        Suspended me (JStr ''cursor'') (JArr [hit_of doc1, hit_of doc2]) [],
        world3\<lparr>scroll_down := True, page := 2, pending := [hit_of (JObj [(''user'', JStr ''c'')])]\<rparr>)
   \<and> gen_next fake (Suspended me (JStr ''cursor'') (JArr [hit_of doc1, hit_of doc2]) [])
       (world3\<lparr>scroll_down := True, page := 2, pending := [hit_of (JObj [(''user'', JStr ''c'')])]\<rparr>)
     = (Raise (ApiError ''search_context_missing_exception''), Finished,
        world3\<lparr>scroll_down := True, page := 2, pending := [hit_of (JObj [(''user'', JStr ''c'')])],
               released := [JStr ''cursor'']\<rparr>)
   \<and> snd (snd (snd (gen_next (traced fake)
         (Suspended me (JStr ''cursor'') (JArr [hit_of doc1, hit_of doc2]) [])
         (world3\<lparr>scroll_down := True, page := 2,
                 pending := [hit_of (JObj [(''user'', JStr ''c'')])]\<rparr>, []))))
     = [(Scroll (JStr ''cursor'') ''2m'', Raised (ApiError ''search_context_missing_exception'')),
        (ClearScroll (JStr ''cursor''), Returned (JObj [(''succeeded'', JBool True)]))]"
proof -
  let ?wd = "world3\<lparr>search_down := True\<rparr>"
  let ?ws = "world3\<lparr>scroll_down := True, page := 2,
                 pending := [hit_of (JObj [(''user'', JStr ''c'')])]\<rparr>"
  have a: "search fake (client me) ''logs'' (query_body None None) scroll_timeout 2 ?wd
      = (Inl (ApiError ''search_phase_execution_exception''), ?wd)"
    by (simp add: fake_defs)
  have b: "scroll fake (client me) (JStr ''cursor'') scroll_timeout ?ws
      = (Inl (ApiError ''search_context_missing_exception''), ?ws)"
    by (simp add: fake_defs)
  have c: "truthy (JArr [hit_of doc1, hit_of doc2])" by simp
  have r: "run fake [Pull, Pull] (fst (query fake me ''logs'' None None 2 (world3\<lparr>scroll_down := True\<rparr>)))
       (world3\<lparr>scroll_down := True\<rparr>)
     = ([Yield doc1, Yield doc2],
        Suspended me (JStr ''cursor'') (JArr [hit_of doc1, hit_of doc2]) [], ?ws)"
    by (simp add: fake_defs)
  from query_failure_reaches_the_consumer
         [where lib = fake and self = me and idx = "''logs''" and q = None and qs = None
            and n = 2 and w = ?wd and e = "ApiError ''search_phase_execution_exception''"
            and ?w1.0 = ?wd and h = JNull and d = JNull]
  have 1: "gen_next fake (fst (query fake me ''logs'' None None 2 ?wd)) ?wd
     = (Raise (ApiError ''search_phase_execution_exception''), Finished, ?wd)"
    using a by simp
  from query_failure_reaches_the_consumer
         [where lib = fake and self = me and idx = "''logs''" and q = None and qs = None
            and n = 2 and w = ?ws and e = "ApiError ''search_context_missing_exception''"
            and ?w1.0 = ?ws and h = JNull and d = JNull and sid = "JStr ''cursor''"
            and hits = "JArr [hit_of doc1, hit_of doc2]" and l = "[]"]
  have 2: "gen_next fake (Suspended me (JStr ''cursor'') (JArr [hit_of doc1, hit_of doc2]) []) ?ws
          = (Raise (ApiError ''search_context_missing_exception''), Finished,
             finally_block fake me (JStr ''cursor'') ?ws)
        \<and> snd (snd (snd (gen_next (traced fake)
              (Suspended me (JStr ''cursor'') (JArr [hit_of doc1, hit_of doc2]) []) (?ws, []))))
          = [(Scroll (JStr ''cursor'') scroll_timeout, Raised (ApiError ''search_context_missing_exception'')),
             (ClearScroll (JStr ''cursor''),
                        (case fst (clear_scroll fake (client me) (JStr ''cursor'') ?ws) of
                           Inl x \<Rightarrow> Raised x
                         | Inr r \<Rightarrow> Returned r))]"
    using b c by simp
  have f: "finally_block fake me (JStr ''cursor'') ?ws = ?ws\<lparr>released := [JStr ''cursor'']\<rparr>"
    by (simp add: fake_defs)
  have g: "fst (clear_scroll fake (client me) (JStr ''cursor'') ?ws)
      = Inr (JObj [(''succeeded'', JBool True)])"
    by (simp add: fake_defs)
  from 1 2 r show ?thesis
    by (simp only: f g) (simp add: scroll_timeout_def)
qed

text \<open>
  The claim as stated has the query fail with a \<^verbatim>\<open>QueryError\<close>. On the test double with
  the search out of order, the call returns the generator and the first pull raises the
  library's \<open>ApiError\<close>, the very value the search request raised; with a library whose
  search raises a \<^verbatim>\<open>KeyError\<close>, the first pull raises that \<^verbatim>\<open>KeyError\<close>.
\<close>

theorem query_error_is_the_library_exception:
  "query fake me ''logs'' None None 2 (world3\<lparr>search_down := True\<rparr>)
     = (Created me ''logs'' None None 2, world3\<lparr>search_down := True\<rparr>)
   \<and> fst (search fake (client me) ''logs'' (query_body None None) scroll_timeout 2
            (world3\<lparr>search_down := True\<rparr>))
     = Inl (ApiError ''search_phase_execution_exception'')
   \<and> fst (gen_next fake (Created me ''logs'' None None 2) (world3\<lparr>search_down := True\<rparr>))
     = Raise (ApiError ''search_phase_execution_exception'')
   \<and> fst (gen_next fake_keyerror (Created me ''logs'' None None 2) world3)
     = Raise (KeyError ''boom'')"
  by (simp add: fake_defs fake_keyerror_def fake_search_keyerror_def)

text \<open>
  Claim C9. Calling \<^verbatim>\<open>query\<close> sends no request and leaves the world as it is, and so
  does closing the generator before any pull. The search request is the first request of
  the first pull, and when it fails it is that pull which raises.
\<close>

theorem query_call_is_lazy:
  "snd (query (traced lib) self idx q qs n (w, l)) = (w, l)
   \<and> gen_close (traced lib) (fst (query (traced lib) self idx q qs n (w, l))) (w, l)
       = (Finished, (w, l))
   \<and> prefix (l @ [(Search idx (query_body q qs) scroll_timeout n,
                    (case fst (search lib (client self) idx (query_body q qs) scroll_timeout n w) of
                       Inl e \<Rightarrow> Raised e
                     | Inr r \<Rightarrow> Returned (JObj r)))])
        (snd (snd (snd (gen_next (traced lib)
                          (fst (query (traced lib) self idx q qs n (w, l))) (w, l)))))
   \<and> (fst (search lib (client self) idx (query_body q qs) scroll_timeout n w) = Inl e \<longrightarrow>
        fst (gen_next lib (fst (query lib self idx q qs n w)) w) = Raise e)"
proof -
  let ?s = "search lib (client self) idx (query_body q qs) scroll_timeout n w"
  have a: "snd (query (traced lib) self idx q qs n (w, l)) = (w, l)"
    by (simp add: query_def)
  have b: "gen_close (traced lib) (fst (query (traced lib) self idx q qs n (w, l))) (w, l)
       = (Finished, (w, l))"
    by (simp add: query_def)
  have c: "prefix (l @ [(Search idx (query_body q qs) scroll_timeout n,
                    (case fst ?s of Inl e \<Rightarrow> Raised e | Inr r \<Rightarrow> Returned (JObj r)))])
        (snd (snd (snd (gen_next (traced lib)
                          (fst (query (traced lib) self idx q qs n (w, l))) (w, l)))))"
    by (cases ?s)
       (simp add: query_def search_traced finally_prefix resume_prefix del: resume.simps
          split: prod.splits sum.splits)
  have d: "fst ?s = Inl e \<longrightarrow> fst (gen_next lib (fst (query lib self idx q qs n w)) w) = Raise e"
    by (cases ?s) (simp add: query_def)
  from a b c d show ?thesis by blast
qed

theorem query_call_is_lazy_witness:
  "snd (query (traced fake) me ''logs'' None None 2 (world3\<lparr>search_down := True\<rparr>, []))
     = (world3\<lparr>search_down := True\<rparr>, [])
   \<and> prefix [(Search ''logs'' (JObj [(''query'', JObj [(''match_all'', JObj [])])]) ''2m'' 2,
               Raised (ApiError ''search_phase_execution_exception''))]
        (snd (snd (snd (gen_next (traced fake)
           (fst (query (traced fake) me ''logs'' None None 2 (world3\<lparr>search_down := True\<rparr>, [])))
           (world3\<lparr>search_down := True\<rparr>, [])))))
   \<and> fst (gen_next fake (fst (query fake me ''logs'' None None 2 (world3\<lparr>search_down := True\<rparr>)))
          (world3\<lparr>search_down := True\<rparr>))
     = Raise (ApiError ''search_phase_execution_exception'')"
proof -
  let ?wd = "world3\<lparr>search_down := True\<rparr>"
  have a: "fst (search fake (client me) ''logs'' (query_body None None) scroll_timeout 2 ?wd)
      = Inl (ApiError ''search_phase_execution_exception'')"
    by (simp add: fake_defs)
  from query_call_is_lazy
         [where lib = fake and self = me and idx = "''logs''" and q = None and qs = None
            and n = 2 and w = ?wd and l = "[]"
            and e = "ApiError ''search_phase_execution_exception''", unfolded a]
  show ?thesis
    by (simp add: query_body_def scroll_timeout_def)
qed

section \<open>Batch upload\<close>

lemma upload_loop_append:
  "upload_loop lib self idx (xs @ ys) rs w =
     (case upload_loop lib self idx xs rs w of
        (None, rs', w') \<Rightarrow> upload_loop lib self idx ys rs' w'
      | (Some e, rs', w') \<Rightarrow> (Some e, rs', w'))"
  by (induction xs arbitrary: rs w) (auto split: prod.splits sum.splits option.splits)

lemma upload_loop_acc:
  "upload_loop lib self idx docs rs w =
     (case upload_loop lib self idx docs [] w of (ex, acks, w') \<Rightarrow> (ex, rs @ acks, w'))"
proof (induction docs arbitrary: rs w)
  case Nil
  show ?case by simp
next
  case (Cons d docs)
  show ?case
  proof (cases "upload_document lib self idx d None w")
    case (Pair r w1)
    show ?thesis
    proof (cases r)
      case (Inl e)
      with Pair show ?thesis by simp
    next
      case (Inr a)
      have 1: "upload_loop lib self idx docs (rs @ [a]) w1 =
          (case upload_loop lib self idx docs [] w1 of (ex, acks, w') \<Rightarrow> (ex, (rs @ [a]) @ acks, w'))"
        by (rule Cons.IH)
      have 2: "upload_loop lib self idx docs [a] w1 =
          (case upload_loop lib self idx docs [] w1 of (ex, acks, w') \<Rightarrow> (ex, [a] @ acks, w'))"
        by (rule Cons.IH)
      show ?thesis
        by (simp add: Pair Inr 1 2 split: prod.splits)
    qed
  qed
qed

lemma upload_loop_results:
  assumes "upload_loop lib self idx docs rs w = (exit, rs', w')"
  shows "\<exists>acks. rs' = rs @ acks \<and> upload_loop lib self idx docs [] w = (exit, acks, w')"
  using assms by (subst (asm) upload_loop_acc) (auto split: prod.splits)

lemma upload_loop_length:
  "upload_loop lib self idx docs [] w = (exit, acks, w') \<Longrightarrow>
     length acks \<le> length docs
       \<and> (exit = None \<longrightarrow> length acks = length docs)
       \<and> (exit \<noteq> None \<longrightarrow> length acks < length docs)"
proof (induction docs arbitrary: w exit acks w')
  case Nil
  then show ?case by auto
next
  case (Cons d docs)
  show ?case
  proof (cases "upload_document lib self idx d None w")
    case (Pair r w1)
    show ?thesis
    proof (cases r)
      case (Inl e)
      with Pair Cons.prems show ?thesis by auto
    next
      case (Inr a)
      with Pair Cons.prems have "upload_loop lib self idx docs [a] w1 = (exit, acks, w')"
        by simp
      from upload_loop_results [OF this] obtain acks' where
        "acks = a # acks'" "upload_loop lib self idx docs [] w1 = (exit, acks', w')" by auto
      with Cons.IH [OF this(2)] show ?thesis by auto
    qed
  qed
qed

lemma upload_loop_take:
  assumes "upload_loop lib self idx docs [] w = (exit, results, w')"
    and "i \<le> length results"
  shows "upload_loop lib self idx (take i docs) [] w
           = (None, take i results, world_after lib self idx (take i docs) w)"
  using assms
proof (induction i arbitrary: exit results w')
  case 0
  then show ?case by (simp add: world_after_def)
next
  case (Suc i)
  from upload_loop_length [OF Suc.prems(1)] have len: "length results \<le> length docs" by auto
  with Suc.prems have i: "i < length docs" by simp
  from Suc.IH [OF Suc.prems(1)] Suc.prems(2)
  have ih: "upload_loop lib self idx (take i docs) [] w
           = (None, take i results, world_after lib self idx (take i docs) w)" by simp
  have split: "docs = take i docs @ docs ! i # drop (Suc i) docs"
    using i by (simp add: id_take_nth_drop)
  have tk: "take (Suc i) docs = take i docs @ [docs ! i]"
    using i by (simp add: take_Suc_conv_app_nth)
  let ?w = "world_after lib self idx (take i docs) w"
  obtain r w1 where up: "upload_document lib self idx (docs ! i) None ?w = (r, w1)"
    by (cases "upload_document lib self idx (docs ! i) None ?w") auto
  show ?case
  proof (cases r)
    case (Inl e)
    have "upload_loop lib self idx docs [] w = (Some e, take i results, w1)"
      by (subst split) (simp add: upload_loop_append ih up Inl)
    with Suc.prems show ?thesis by simp
  next
    case (Inr a)
    have "upload_loop lib self idx docs [] w
            = upload_loop lib self idx (drop (Suc i) docs) (take i results @ [a]) w1"
      by (subst split) (simp add: upload_loop_append ih up Inr)
    with Suc.prems(1) have "upload_loop lib self idx (drop (Suc i) docs) (take i results @ [a]) w1
            = (exit, results, w')" by simp
    from upload_loop_results [OF this] obtain acks where "results = (take i results @ [a]) @ acks"
      by blast
    then have "take (Suc i) results = take (Suc i) ((take i results @ [a]) @ acks)" by simp
    also have "\<dots> = take i results @ [a]" using Suc.prems(2) by simp
    finally have ts: "take (Suc i) results = take i results @ [a]" .
    have "upload_loop lib self idx (take (Suc i) docs) [] w = (None, take i results @ [a], w1)"
      by (simp add: tk upload_loop_append ih up Inr)
    then show ?thesis by (simp add: ts world_after_def)
  qed
qed

lemma upload_document_traced:
  "upload_document (traced lib) self idx d doc_id (w, l) =
     (case upload_document lib self idx d doc_id w of
        (Inl e, w') \<Rightarrow> (Inl e, (w', l @ [(Index idx doc_id d, Raised e)]))
      | (Inr a, w') \<Rightarrow> (Inr a, (w', l @ [(Index idx doc_id d, Returned a)])))"
  by (simp add: upload_document_def traced_def logged_def split: prod.splits sum.splits)

lemma upload_loop_traced:
  "upload_loop (traced lib) self idx docs rs (w, l) =
     (case upload_loop lib self idx docs [] w of
        (ex, acks, w') \<Rightarrow>
          (ex, rs @ acks, (w', l @ zip (map (Index idx None) docs) (replies ex acks))))"
proof (induction docs arbitrary: rs w l)
  case Nil
  show ?case by (simp add: replies_def)
next
  case (Cons d docs)
  show ?case
  proof (cases "upload_document lib self idx d None w")
    case (Pair r w1)
    show ?thesis
    proof (cases r)
      case (Inl e)
      with Pair show ?thesis by (simp add: upload_document_traced replies_def)
    next
      case (Inr a)
      have 1: "upload_loop lib self idx docs [a] w1 =
          (case upload_loop lib self idx docs [] w1 of (ex, acks, w') \<Rightarrow> (ex, [a] @ acks, w'))"
        by (rule upload_loop_acc)
      show ?thesis
        by (simp add: Pair Inr upload_document_traced Cons.IH 1 replies_def split: prod.splits)
    qed
  qed
qed

lemma upload_loop_first_failure:
  assumes "k < length docs"
    and "fst (upload_loop lib self idx (take k docs) [] w) = None"
    and "upload_document lib self idx (docs ! k) None (world_after lib self idx (take k docs) w) = (Inl e, w')"
  shows "upload_loop lib self idx docs [] w
           = (Some e, fst (snd (upload_loop lib self idx (take k docs) [] w)), w')"
proof -
  obtain rs where pre: "upload_loop lib self idx (take k docs) [] w
      = (None, rs, world_after lib self idx (take k docs) w)"
    using assms(2) by (cases "upload_loop lib self idx (take k docs) [] w") (auto simp: world_after_def)
  have split: "docs = take k docs @ docs ! k # drop (Suc k) docs"
    using assms(1) by (simp add: id_take_nth_drop)
  have "upload_loop lib self idx docs [] w = (Some e, rs, w')"
    by (subst split) (simp add: upload_loop_append pre assms(3))
  with pre show ?thesis by simp
qed

lemma fake_upload_ok:
  "upload_loop fake me ''logs'' [doc1, doc2] [] world0
     = (None, [ack ''logs'' ''g'', ack ''logs'' ''gg''],
        world0\<lparr>stored := [(''logs'', None, doc1), (''logs'', None, doc2)]\<rparr>)"
  by (simp add: upload_document_def fake_def fake_index_def world0_def doc1_def doc2_def me_def)

lemma fake_upload_fails:
  "upload_loop fake me ''logs'' [doc1, JObj [], doc2] [] world0
     = (Some (ApiError ''mapper_parsing_exception''), [ack ''logs'' ''g''],
        world0\<lparr>stored := [(''logs'', None, doc1)]\<rparr>)"
  by (simp add: upload_document_def fake_def fake_index_def world0_def doc1_def doc2_def me_def)

text \<open>
  Claim C6. \<^verbatim>\<open>upload_documents\<close> uploads the documents one at a time, in input order,
  each through \<^verbatim>\<open>upload_document\<close> in the world the earlier uploads left. Its list of
  results has one entry for each document uploaded before the loop ended: entry \<open>i\<close> is
  the acknowledgment of input document \<open>i\<close>. When no upload fails the list has an entry
  for every input document and is what the caller gets; when one fails, it is the
  document right after those acknowledged.
\<close>

theorem upload_documents_preserves_order:
  assumes "upload_loop lib self idx docs [] w = (exit, results, w')"
  shows "length results \<le> length docs
     \<and> (\<forall>i<length results.
           upload_document lib self idx (docs ! i) None (world_after lib self idx (take i docs) w)
             = (Inr (results ! i), world_after lib self idx (take (Suc i) docs) w))
     \<and> (exit = None \<longrightarrow>
           length results = length docs \<and> upload_documents lib self idx docs w = (Inr results, w'))
     \<and> (\<forall>e. exit = Some e \<longrightarrow>
           length results < length docs \<and>
           upload_document lib self idx (docs ! length results) None
               (world_after lib self idx (take (length results) docs) w) = (Inl e, w'))"
proof (intro conjI allI impI)
  from upload_loop_length [OF assms] show len: "length results \<le> length docs" by simp
  show "length results = length docs" if "exit = None"
    using upload_loop_length [OF assms] that by simp
  show "upload_documents lib self idx docs w = (Inr results, w')" if "exit = None"
    using assms that by (simp add: upload_documents_def)
  show "length results < length docs" if "exit = Some e" for e
    using upload_loop_length [OF assms] that by simp
next
  fix i assume i: "i < length results"
  from upload_loop_length [OF assms] i have il: "i < length docs" by simp
  let ?w = "world_after lib self idx (take i docs) w"
  have a: "upload_loop lib self idx (take i docs) [] w = (None, take i results, ?w)"
    using upload_loop_take [OF assms, of i] i by simp
  have b: "upload_loop lib self idx (take (Suc i) docs) [] w
      = (None, take (Suc i) results, world_after lib self idx (take (Suc i) docs) w)"
    using upload_loop_take [OF assms, of "Suc i"] i by simp
  have tk: "take (Suc i) docs = take i docs @ [docs ! i]"
    using il by (simp add: take_Suc_conv_app_nth)
  have tr: "take (Suc i) results = take i results @ [results ! i]"
    using i by (simp add: take_Suc_conv_app_nth)
  from b show "upload_document lib self idx (docs ! i) None ?w
             = (Inr (results ! i), world_after lib self idx (take (Suc i) docs) w)"
    unfolding tk tr
    by (cases "upload_document lib self idx (docs ! i) None ?w")
       (auto simp: upload_loop_append a split: sum.splits)
next
  fix e assume e: "exit = Some e"
  let ?k = "length results"
  let ?w = "world_after lib self idx (take ?k docs) w"
  from upload_loop_length [OF assms] e have k: "?k < length docs" by simp
  have a: "upload_loop lib self idx (take ?k docs) [] w = (None, results, ?w)"
    using upload_loop_take [OF assms, of ?k] by simp
  have split: "docs = take ?k docs @ docs ! ?k # drop (Suc ?k) docs"
    using k by (simp add: id_take_nth_drop)
  obtain r w1 where up: "upload_document lib self idx (docs ! ?k) None ?w = (r, w1)"
    by (cases "upload_document lib self idx (docs ! ?k) None ?w") auto
  show "upload_document lib self idx (docs ! ?k) None ?w = (Inl e, w')"
  proof (cases r)
    case (Inl e')
    have "upload_loop lib self idx docs [] w = (Some e', results, w1)"
      by (subst split) (simp add: upload_loop_append a up Inl)
    with assms e up Inl show ?thesis by simp
  next
    case (Inr v)
    have "upload_loop lib self idx docs [] w
        = upload_loop lib self idx (drop (Suc ?k) docs) (results @ [v]) w1"
      by (subst split) (simp add: upload_loop_append a up Inr)
    with assms have "upload_loop lib self idx (drop (Suc ?k) docs) (results @ [v]) w1
        = (exit, results, w')" by simp
    from upload_loop_results [OF this] show ?thesis by auto
  qed
qed

theorem upload_documents_preserves_order_witness:
  "upload_documents fake me ''logs'' [doc1, doc2] world0
     = (Inr [ack ''logs'' ''g'', ack ''logs'' ''gg''],
        world0\<lparr>stored := [(''logs'', None, doc1), (''logs'', None, doc2)]\<rparr>)
   \<and> fst (upload_document fake me ''logs'' doc1 None world0) = Inr (ack ''logs'' ''g'')
   \<and> fst (upload_document fake me ''logs'' doc2 None (world_after fake me ''logs'' [doc1] world0))
       = Inr (ack ''logs'' ''gg'')
   \<and> upload_document fake me ''logs'' (JObj []) None (world_after fake me ''logs'' [doc1] world0)
       = (Inl (ApiError ''mapper_parsing_exception''), world0\<lparr>stored := [(''logs'', None, doc1)]\<rparr>)"
  using upload_documents_preserves_order [OF fake_upload_ok]
    upload_documents_preserves_order [OF fake_upload_fails]
  by (simp add: world_after_def upload_document_def fake_def fake_index_def world0_def me_def
      doc1_def doc2_def)

text \<open>
  Claim C7, as amended. When document \<open>k\<close> is the first whose upload fails,
  \<^verbatim>\<open>upload_documents\<close> raises that failure and the caller gets the exception and
  nothing else. The requests sent are the \<open>k\<close> uploads that succeeded and the failing
  one: no later document is uploaded and nothing is sent to undo the earlier uploads, so
  the world is the one the failing request left.
\<close>

theorem upload_documents_stops_at_first_failure:
  assumes "k < length docs"
    and "fst (upload_loop lib self idx (take k docs) [] w) = None"
    and "upload_document lib self idx (docs ! k) None (world_after lib self idx (take k docs) w) = (Inl e, w')"
  shows "upload_documents lib self idx docs w = (Inl e, w')
     \<and> upload_documents (traced lib) self idx docs (w, l)
         = (Inl e, (w', l @ zip (map (Index idx None) (take k docs))
                              (map Returned (fst (snd (upload_loop lib self idx (take k docs) [] w))))
                          @ [(Index idx None (docs ! k), Raised e)]))"
proof -
  let ?acks = "fst (snd (upload_loop lib self idx (take k docs) [] w))"
  have loop: "upload_loop lib self idx docs [] w = (Some e, ?acks, w')"
    by (rule upload_loop_first_failure [OF assms])
  obtain ex rs w1 where pre: "upload_loop lib self idx (take k docs) [] w = (ex, rs, w1)"
    by (cases "upload_loop lib self idx (take k docs) [] w") auto
  with assms(2) upload_loop_length [OF pre] assms(1) have len: "length ?acks = k" by simp
  have split: "map (Index idx None) docs
      = map (Index idx None) (take k docs) @ Index idx None (docs ! k) # map (Index idx None) (drop (Suc k) docs)"
    using assms(1) by (subst id_take_nth_drop [of k docs]) (simp_all del: append_take_drop_id)
  have "zip (map (Index idx None) docs) (replies (Some e) ?acks)
      = zip (map (Index idx None) (take k docs)) (map Returned ?acks) @ [(Index idx None (docs ! k), Raised e)]"
    using assms(1) len by (subst split) (simp add: replies_def zip_append)
  with loop show ?thesis
    by (simp add: upload_documents_def upload_loop_traced)
qed

theorem upload_documents_stops_at_first_failure_witness:
  "upload_documents fake me ''logs'' [doc1, JObj [], doc2] world0
     = (Inl (ApiError ''mapper_parsing_exception''), world0\<lparr>stored := [(''logs'', None, doc1)]\<rparr>)
   \<and> upload_documents (traced fake) me ''logs'' [doc1, JObj [], doc2] (world0, [])
     = (Inl (ApiError ''mapper_parsing_exception''),
        (world0\<lparr>stored := [(''logs'', None, doc1)]\<rparr>,
         [(Index ''logs'' None doc1, Returned (ack ''logs'' ''g'')),
          (Index ''logs'' None (JObj []), Raised (ApiError ''mapper_parsing_exception''))]))"
proof -
  have a: "(1::nat) < length [doc1, JObj [], doc2]" by simp
  have b: "upload_loop fake me ''logs'' (take 1 [doc1, JObj [], doc2]) [] world0
      = (None, [ack ''logs'' ''g''], world0\<lparr>stored := [(''logs'', None, doc1)]\<rparr>)"
    by (simp add: upload_document_def fake_def fake_index_def world0_def doc1_def me_def)
  have c: "upload_document fake me ''logs'' ([doc1, JObj [], doc2] ! 1) None
        (world_after fake me ''logs'' (take 1 [doc1, JObj [], doc2]) world0)
      = (Inl (ApiError ''mapper_parsing_exception''), world0\<lparr>stored := [(''logs'', None, doc1)]\<rparr>)"
    unfolding world_after_def b
    by (simp add: upload_document_def fake_def fake_index_def)
  have b': "fst (upload_loop fake me ''logs'' (take 1 [doc1, JObj [], doc2]) [] world0) = None"
    by (simp only: b fst_conv)
  from upload_documents_stops_at_first_failure [OF a b' c, of "[]"] show ?thesis
    by (simp only: b) simp
qed

text \<open>
  The claim as stated also lets the caller read the number of successes off a partial
  result list. Two batches on the test double, one failing at its first document and
  one at its second, give the caller the same value while the server holds no document
  after the first and one after the second.
\<close>

theorem partial_results_not_observable:
  "fst (upload_documents fake me ''logs'' [JObj [], doc1] world0)
     = Inl (ApiError ''mapper_parsing_exception'')
   \<and> fst (upload_documents fake me ''logs'' [doc1, JObj []] world0)
     = Inl (ApiError ''mapper_parsing_exception'')
   \<and> stored (snd (upload_documents fake me ''logs'' [JObj [], doc1] world0)) = []
   \<and> stored (snd (upload_documents fake me ''logs'' [doc1, JObj []] world0))
     = [(''logs'', None, doc1)]"
  by (simp add: upload_documents_def upload_document_def fake_def fake_index_def world0_def
      doc1_def me_def)

text \<open>
  Claim C10. Every request \<^verbatim>\<open>upload_documents\<close> sends is an index request for the next
  input document with the identifier omitted (\<^verbatim>\<open>id=None\<close>), so the identifier is the
  server's choice; \<^verbatim>\<open>upload_document\<close> passes on the identifier it is given.
\<close>

theorem upload_documents_omits_id:
  "snd (snd (upload_documents (traced lib) self idx docs (w, l)))
     = l @ zip (map (Index idx None) docs)
             (case upload_loop lib self idx docs [] w of (exit, acks, w') \<Rightarrow> replies exit acks)
   \<and> snd (snd (upload_document (traced lib) self idx d doc_id (w, l)))
     = l @ [(Index idx doc_id d,
             (case fst (upload_document lib self idx d doc_id w) of
                Inl e \<Rightarrow> Raised e
              | Inr a \<Rightarrow> Returned a))]"
  by (simp add: upload_documents_def upload_loop_traced upload_document_traced
      split: prod.splits option.splits sum.splits)

theorem upload_documents_omits_id_witness:
  "snd (snd (upload_documents (traced fake) me ''logs'' [doc1, doc2] (world0, [])))
     = [(Index ''logs'' None doc1, Returned (ack ''logs'' ''g'')),
        (Index ''logs'' None doc2, Returned (ack ''logs'' ''gg''))]
   \<and> snd (snd (upload_document (traced fake) me ''logs'' doc1 (Some ''id-7'') (world0, [])))
     = [(Index ''logs'' (Some ''id-7'') doc1, Returned (ack ''logs'' ''id-7''))]"
proof -
  have "fst (upload_document fake me ''logs'' doc1 (Some ''id-7'') world0) = Inr (ack ''logs'' ''id-7'')"
    by (simp add: upload_document_def fake_def fake_index_def world0_def doc1_def me_def)
  with upload_documents_omits_id [of fake me "''logs''" "[doc1, doc2]" world0 "[]" doc1 "Some ''id-7''",
      unfolded fake_upload_ok]
  show ?thesis
    by (simp add: replies_def)
qed

section \<open>The request body\<close>

text \<open>
  Claim C3. The body \<^verbatim>\<open>query\<close> submits: a structured query is used as it is, also when a
  query string comes with it, and the sequence is then the one obtained without the
  string; a query string alone is wrapped into one \<^verbatim>\<open>query_string\<close> clause; with neither,
  the body is the match-all query, and the sequence behaves as the one of an explicit
  match-all query, pull for pull.
\<close>

theorem query_body_resolution:
  "query_body (Some d) qs = JObj [(''query'', d)]
   \<and> query_body None (Some s) = JObj [(''query'', JObj [(''query_string'', JObj [(''query'', JStr s)])])]
   \<and> query_body None None = JObj [(''query'', JObj [(''match_all'', JObj [])])]
   \<and> gen_next lib (fst (query lib self idx (Some d) qs n w)) w
       = gen_next lib (fst (query lib self idx (Some d) None n w)) w
   \<and> gen_next lib (fst (query lib self idx None None n w)) w
       = gen_next lib (fst (query lib self idx (Some (JObj [(''match_all'', JObj [])])) None n w)) w"
  by (simp add: query_body_def query_def scroll_timeout_def split: prod.splits sum.splits)

theorem query_body_resolution_witness:
  "query_body (Some (JObj [(''term'', JObj [(''user'', JStr ''a'')])])) (Some ''user:b'')
     = JObj [(''query'', JObj [(''term'', JObj [(''user'', JStr ''a'')])])]
   \<and> query_body None (Some ''user:b'')
     = JObj [(''query'', JObj [(''query_string'', JObj [(''query'', JStr ''user:b'')])])]
   \<and> fst (gen_next fake (fst (query fake me ''logs'' None None 2 world3)) world3)
     = Yield (JObj [(''user'', JStr ''a'')])
   \<and> fst (gen_next fake (fst (query fake me ''logs'' (Some (JObj [(''match_all'', JObj [])])) None 2 world3)) world3)
     = Yield (JObj [(''user'', JStr ''a'')])"
proof -
  have "fst (gen_next fake (fst (query fake me ''logs'' None None 2 world3)) world3)
     = Yield (JObj [(''user'', JStr ''a'')])"
    by (simp add: query_def query_body_def fake_def fake_search_def world3_def world0_def docs3_def doc1_def doc2_def
        hit_of_def response_hits_def me_def)
  with query_body_resolution [of "JObj [(''term'', JObj [(''user'', JStr ''a'')])]" "Some ''user:b''"
      "''user:b''" fake me "''logs''" 2 world3]
  show ?thesis by simp
qed

section \<open>Construction\<close>

text \<open>
  Claim C4. For every endpoint, API key and CA certificate, once the library's client
  object exists: when \<^verbatim>\<open>ping\<close> raises or returns false, \<^verbatim>\<open>__init__\<close> raises
  \<^verbatim>\<open>ConnectionError\<close>, no client is returned, the message contains the endpoint, and an
  exception raised by \<^verbatim>\<open>ping\<close> is the cause of the error and its text is part of the
  message.
\<close>

theorem construct_fails_fast:
  assumes "Elasticsearch lib (connection_params endpoint api_key ca_cert) = Inr c"
    and "ping lib c w = (r, w')"
    and "r \<noteq> Inr True"
  shows "\<exists>msg cause. init lib endpoint api_key ca_cert w = (Inl (ConnectionError msg (Some cause)), w')
           \<and> sublist endpoint msg
           \<and> (\<forall>e. r = Inl e \<longrightarrow> cause = e \<and> sublist (str e) msg)"
proof (cases r)
  case (Inl e)
  have "sublist endpoint (''Failed to connect to Elasticsearch at '' @ endpoint @ '': '' @ str e)"
    by (rule sublist_appendI)
  moreover have "sublist (str e) ((''Failed to connect to Elasticsearch at '' @ endpoint @ '': '') @ str e @ [])"
    by (rule sublist_appendI)
  ultimately show ?thesis using assms Inl
    by (simp add: init_def failed_to_connect_def)
next
  case (Inr alive)
  with assms(3) have "\<not> alive" by simp
  moreover have "sublist endpoint (''Failed to connect to Elasticsearch at '' @ endpoint @ '': '' @
     ''Unable to connect to Elasticsearch at '' @ endpoint)"
    by (rule sublist_appendI)
  ultimately show ?thesis using assms Inr
    by (simp add: init_def failed_to_connect_def)
qed

theorem construct_fails_fast_witness:
  "(\<exists>msg. init fake ''https://localhost:9200'' ''key'' None (world0\<lparr>alive := None\<rparr>)
       = (Inl (ConnectionError msg (Some (ApiError ''connection refused''))), world0\<lparr>alive := None\<rparr>)
     \<and> sublist ''https://localhost:9200'' msg \<and> sublist ''connection refused'' msg)
   \<and> (\<exists>msg cause. init fake ''https://localhost:9200'' ''key'' (Some ''ca.pem'') (world0\<lparr>alive := Some False\<rparr>)
       = (Inl (ConnectionError msg (Some cause)), world0\<lparr>alive := Some False\<rparr>)
     \<and> sublist ''https://localhost:9200'' msg)"
proof -
  have a: "Elasticsearch fake (connection_params ''https://localhost:9200'' ''key'' ca) = Inr ()" for ca
    by (simp add: fake_def)
  have b: "ping fake () (world0\<lparr>alive := None\<rparr>)
      = (Inl (ApiError ''connection refused''), world0\<lparr>alive := None\<rparr>)"
    by (simp add: fake_def world0_def)
  have c: "ping fake () (world0\<lparr>alive := Some False\<rparr>) = (Inr False, world0\<lparr>alive := Some False\<rparr>)"
    by (simp add: fake_def world0_def)
  from construct_fails_fast [OF a b] construct_fails_fast [OF a c]
  show ?thesis by auto
qed

section \<open>Exit codes of the email tool\<close>



end
